theory Spec2Isabelle
  imports Complex_Main "HOL-Library.Multiset"
begin

section \<open>Pixel Defender: entities\<close>

text \<open>
  Numbers. The Python code mixes \<^verbatim>\<open>int\<close> and \<^verbatim>\<open>float\<close>: sizes, damage, health, score,
  level and goal are integers; positions and speeds become floats (\<^verbatim>\<open>x_pos -= width / 2\<close>,
  speeds 1.5 and 0.75). Every float the game computes is a small multiple of 1/4, which
  binary floating point represents exactly, so positions and speeds are modelled as
  rationals.

  \<^verbatim>\<open>Entity\<close> is the base class; \<^verbatim>\<open>Bullet\<close>, \<^verbatim>\<open>Heart\<close> and \<^verbatim>\<open>Spaceship\<close> extend it, as the
  records below extend \<open>entity\<close>. The \<^verbatim>\<open>placeholder\<close> is a pygame Rect, whose coordinates
  are integers; only its top-left corner is read by the game. It exists only once the
  sprite has been loaded (\<open>has_image\<close>); the model covers the runs in which the sprite
  files of the repository load.
\<close>

record entity =
  width :: int
  height :: int
  x_pos :: rat
  y_pos :: rat
  speed :: rat
  has_image :: bool
  placeholder_x :: int
  placeholder_y :: int

record bullet = entity +
  damage :: int
  is_fired :: bool

record heart = entity +
  restore_amount :: int
  is_claimed :: bool

record spaceship = entity +
  health :: int
  is_killed :: bool
  bullet :: bullet
  shoot_delay :: int
  is_player :: bool
  shoot_timer :: int

definition SCREEN_W :: int where
  "SCREEN_W = 700"

definition SCREEN_H :: int where
  "SCREEN_H = 900"

text \<open>Assigning a float to a coordinate of a pygame Rect (pygame 2.3 and later) rounds it
  to the nearest integer, a half away from zero.\<close>

definition rect_coord :: "rat \<Rightarrow> int" where
  "rect_coord q = (if 0 \<le> q then \<lfloor>q + 1 / 2\<rfloor> else \<lceil>q - 1 / 2\<rceil>)"

subsection \<open>bullet.py\<close>

text \<open>\<^verbatim>\<open>Bullet.__init__\<close> with \<^verbatim>\<open>image_path = 'N/A'\<close>, the only way the game builds a bullet:
  no sprite is loaded and \<^verbatim>\<open>y_pos\<close> is kept unless it is -1.\<close>

definition Bullet :: "int \<Rightarrow> int \<Rightarrow> rat \<Rightarrow> rat \<Rightarrow> rat \<Rightarrow> int \<Rightarrow> bullet" where
  "Bullet w h x y s dmg =
     \<lparr>width = w, height = h, x_pos = x,
      y_pos = (if y = -1 then - of_int h else y),
      speed = s, has_image = False, placeholder_x = 0, placeholder_y = 0,
      damage = dmg, is_fired = False\<rparr>"

definition set_coordinates :: "bullet \<Rightarrow> rat \<Rightarrow> rat \<Rightarrow> bullet" where
  "set_coordinates b x y = b\<lparr>x_pos := x, y_pos := y, is_fired := True\<rparr>"

definition bullet_move :: "bullet \<Rightarrow> rat \<Rightarrow> int \<Rightarrow> int \<Rightarrow> bullet" where
  "bullet_move b direction screen_w screen_h =
     (let b1 = b\<lparr>y_pos := y_pos b + speed b * direction\<rparr>
      in if y_pos b1 \<le> 0 \<or> y_pos b1 \<ge> of_int screen_h
         then b1\<lparr>is_fired := False\<rparr> else b1)"

subsection \<open>entity.py, heart.py, spaceship.py\<close>

text \<open>
  \<^verbatim>\<open>Entity.__init__\<close> for an entity whose sprite loads: \<^verbatim>\<open>y_pos = -1\<close> means
  ``just above the screen''; the Rect is centred on the given point, and the position
  is then moved to the upper-left corner.
\<close>

definition init_y :: "int \<Rightarrow> int \<Rightarrow> int" where
  "init_y h y = (if y = -1 then - h else y)"

definition Heart :: "int \<Rightarrow> int \<Rightarrow> int \<Rightarrow> int \<Rightarrow> rat \<Rightarrow> int \<Rightarrow> heart" where
  "Heart w h x y s amount =
     \<lparr>width = w, height = h,
      x_pos = of_int x - of_int w / 2,
      y_pos = of_int (init_y h y) - of_int h / 2,
      speed = s, has_image = True,
      placeholder_x = x - w div 2, placeholder_y = init_y h y - h div 2,
      restore_amount = amount, is_claimed = False\<rparr>"

definition heart_move :: "heart \<Rightarrow> rat \<Rightarrow> int \<Rightarrow> int \<Rightarrow> heart" where
  "heart_move e direction screen_w screen_h =
     (let e1 = e\<lparr>y_pos := y_pos e + speed e * direction\<rparr>;
          e2 = e1\<lparr>placeholder_y := rect_coord (y_pos e1)\<rparr>
      in if placeholder_y e2 \<ge> screen_h + height e2 then e2\<lparr>is_claimed := True\<rparr> else e2)"

definition Spaceship ::
  "int \<Rightarrow> int \<Rightarrow> int \<Rightarrow> int \<Rightarrow> rat \<Rightarrow> int \<Rightarrow> bullet \<Rightarrow> int \<Rightarrow> bool \<Rightarrow> spaceship" where
  "Spaceship w h x y s hp b delay isp =
     \<lparr>width = w, height = h,
      x_pos = of_int x - of_int w / 2,
      y_pos = of_int (init_y h y) - of_int h / 2,
      speed = s, has_image = True,
      placeholder_x = x - w div 2, placeholder_y = init_y h y - h div 2,
      health = hp, is_killed = False, bullet = b, shoot_delay = delay,
      is_player = isp, shoot_timer = 0\<rparr>"

text \<open>\<^verbatim>\<open>Spaceship.shoot\<close>: the player fires from its top edge, an alien from its bottom
  edge. (The sound is played and has no effect on the state.)\<close>

definition shoot :: "spaceship \<Rightarrow> spaceship" where
  "shoot s =
     (let y = (if \<not> is_player s then placeholder_y s + height s else placeholder_y s)
      in s\<lparr>bullet := set_coordinates (bullet s)
            (of_int (placeholder_x s) + of_int (width s) / 2 - of_int (width (bullet s)) / 2)
            (of_int y)\<rparr>)"

definition alien_shoot :: "spaceship \<Rightarrow> spaceship" where
  "alien_shoot s =
     (let s1 = s\<lparr>shoot_timer := shoot_timer s + 1\<rparr>
      in if shoot_timer s1 \<ge> shoot_delay s1 \<and> y_pos s1 + of_int (height s1) / 2 \<ge> 0
         then (shoot s1)\<lparr>shoot_timer := 0\<rparr> else s1)"

definition spaceship_move :: "spaceship \<Rightarrow> rat \<Rightarrow> int \<Rightarrow> int \<Rightarrow> spaceship" where
  "spaceship_move s direction screen_w screen_h =
     (if is_player s then
        (let s1 = s\<lparr>x_pos := x_pos s + speed s * direction\<rparr>;
             s2 = (if x_pos s1 \<le> 0 then s1\<lparr>x_pos := 0\<rparr>
                   else if x_pos s1 + of_int (width s1) \<ge> of_int screen_w
                        then s1\<lparr>x_pos := of_int (screen_w - width s1)\<rparr>
                   else s1)
         in s2\<lparr>placeholder_x := rect_coord (x_pos s2)\<rparr>)
      else
        (let s1 = s\<lparr>y_pos := y_pos s + speed s * direction\<rparr>;
             s2 = s1\<lparr>placeholder_y := rect_coord (y_pos s1)\<rparr>
         in if placeholder_y s2 + height s2 \<ge> screen_h - 120
            then s2\<lparr>is_killed := True\<rparr> else s2))"

subsection \<open>game_logic.py: bullets and collisions\<close>

definition check_collisions :: "bullet \<Rightarrow> rat \<Rightarrow> rat \<Rightarrow> rat \<Rightarrow> rat \<Rightarrow> bool" where
  "check_collisions b x y w h =
     (if is_fired b \<and> y \<le> y_pos b \<and> y_pos b \<le> y + h \<and> x \<le> x_pos b \<and> x_pos b \<le> x + w
      then True else False)"

text \<open>\<^verbatim>\<open>move_bullets\<close>: the bullet moves (and is drawn) only while it is fired.\<close>

definition move_bullets :: "bullet \<Rightarrow> rat \<Rightarrow> bullet" where
  "move_bullets b direction =
     (if is_fired b then bullet_move b direction SCREEN_W SCREEN_H else b)"

definition reset_bullets :: "bullet \<Rightarrow> bullet" where
  "reset_bullets b = b\<lparr>is_fired := False, x_pos := of_int SCREEN_W, y_pos := of_int SCREEN_H\<rparr>"

subsection \<open>game_logic.py: spawning\<close>

text \<open>
  Randomness is an explicit argument: every call of \<^verbatim>\<open>random.randint\<close> and
  \<^verbatim>\<open>random.choice\<close> takes a natural number standing for the generator's draw. Each value
  of the range (each element of the list) is produced by some draw, and by equally many
  draws in every block of consecutive draws of the range's size.
\<close>

definition randint :: "int \<Rightarrow> int \<Rightarrow> nat \<Rightarrow> int" where
  "randint a b draw = a + int (draw mod nat (b - a + 1))"

definition choice :: "'a list \<Rightarrow> nat \<Rightarrow> 'a" where
  "choice xs draw = xs ! (draw mod length xs)"

text \<open>The dictionary \<^verbatim>\<open>{"spawn_location": .., "previous_location": ..}\<close> built by
  \<^verbatim>\<open>load_aliens\<close>: its two keys are fixed, so it is a record.\<close>

record location_list =
  spawn_location :: int
  previous_location :: int

text \<open>\<^verbatim>\<open>get_rand_spawn\<close>. The recursive call is made with \<^verbatim>\<open>previous_location = 0\<close>
  and so takes the first branch. \<open>pick\<close> is the draw of \<^verbatim>\<open>random.choice\<close>, \<open>pos\<close> the
  draw of \<^verbatim>\<open>random.randint\<close>.\<close>

function get_rand_spawn :: "location_list \<Rightarrow> int \<Rightarrow> nat \<Rightarrow> nat \<Rightarrow> location_list" where
  "get_rand_spawn l rand_num pick pos =
     (if previous_location l = 0 then
        (let l1 = l\<lparr>previous_location := rand_num\<rparr>
         in if rand_num = 1 then l1\<lparr>spawn_location := randint 75 175 pos\<rparr>
            else if rand_num = 2 then l1\<lparr>spawn_location := randint 325 375 pos\<rparr>
            else if rand_num = 3 then l1\<lparr>spawn_location := randint 525 625 pos\<rparr>
            else l1)
      else if previous_location l \<ge> 1 \<and> previous_location l \<le> 3 then
        (let locations = remove1 (previous_location l) [1, 2, 3];
             l1 = l\<lparr>previous_location := 0\<rparr>
         in get_rand_spawn l1 (choice [locations ! 0, locations ! 1] pick) pick pos)
      else l)"
  by pat_completeness auto
termination
  by (relation "measure (\<lambda>(l, r, p, q). if previous_location l = 0 then 0 else 1)") auto

text \<open>One alien of \<^verbatim>\<open>load_aliens\<close>: \<open>alien_type\<close> is the result of
  \<^verbatim>\<open>random.randint(1, 3)\<close>.\<close>

definition new_alien :: "int \<Rightarrow> int \<Rightarrow> spaceship list" where
  "new_alien alien_type x =
     (if alien_type = 1 then [Spaceship 100 100 x (-1) 3 1 (Bullet 5 20 0 0 30 10) 50 False]
      else if alien_type = 2
        then [Spaceship 120 120 x (-1) (3 / 2) 1 (Bullet 5 20 0 0 30 25) 75 False]
      else if alien_type = 3
        then [Spaceship 150 150 x (-1) (3 / 4) 1 (Bullet 5 20 0 0 30 50) 100 False]
      else [])"

text \<open>The four draws one round of \<^verbatim>\<open>load_aliens\<close> consumes: the alien type, the lane
  hint, and the two draws of \<^verbatim>\<open>get_rand_spawn\<close>.\<close>

record draws =
  type_draw :: nat
  hint_draw :: nat
  pick_draw :: nat
  pos_draw :: nat

fun load_aliens_from ::
  "location_list \<Rightarrow> spaceship list \<Rightarrow> draws list \<Rightarrow> spaceship list" where
  "load_aliens_from rand_location alien_list [] = alien_list"
| "load_aliens_from rand_location alien_list (d # ds) =
     (let alien_type = randint 1 3 (type_draw d);
          l = get_rand_spawn rand_location (randint 1 3 (hint_draw d)) (pick_draw d) (pos_draw d)
      in load_aliens_from l (alien_list @ new_alien alien_type (spawn_location l)) ds)"

text \<open>\<^verbatim>\<open>load_aliens\<close>: the loop \<^verbatim>\<open>for i in range(0, 2)\<close> runs twice, on a fresh
  dictionary.\<close>

definition load_aliens :: "spaceship list \<Rightarrow> draws \<Rightarrow> draws \<Rightarrow> spaceship list" where
  "load_aliens alien_list d1 d2 =
     load_aliens_from \<lparr>spawn_location = 0, previous_location = 0\<rparr> alien_list [d1, d2]"

definition get_heart :: heart where
  "get_heart = Heart 80 80 350 (-1) 1 30"

subsection \<open>game_logic.py: the game loop\<close>

text \<open>
  The local variables of \<^verbatim>\<open>game_loop\<close>. Surfaces and sounds are output only and are
  left out. \<open>text\<close> of the game-over screen is \<open>game_over_text\<close>.
\<close>

record game =
  player :: spaceship
  heart :: heart
  alien_list :: "spaceship list"
  score :: int
  goal :: int
  level :: int
  running :: bool
  is_game_over :: bool
  game_over_text :: string

text \<open>What one frame reads from outside: the QUIT event, the pressed keys, whether the
  pause menu (entered on \<^verbatim>\<open>p\<close>) returns or quits the process, and the draws of
  \<^verbatim>\<open>load_aliens\<close>.\<close>

record frame_input =
  quit_event :: bool
  K_LEFT :: bool
  K_RIGHT :: bool
  K_p :: bool
  K_SPACE :: bool
  pause_returns :: bool
  draws1 :: draws
  draws2 :: draws

definition init_game :: game where
  "init_game =
     \<lparr>player = Spaceship 130 130 350 780 10 100 (Bullet 5 20 0 0 30 1) 0 True,
      heart = get_heart, alien_list = [], score = 0, goal = 10, level = 1,
      running = True, is_game_over = False, game_over_text = ''YOU DIED''\<rparr>"

text \<open>Player controls (the keys LEFT, RIGHT and SPACE).\<close>

definition player_controls :: "frame_input \<Rightarrow> game \<Rightarrow> game" where
  "player_controls inp g =
     (let p1 = (if K_LEFT inp then spaceship_move (player g) (-1) SCREEN_W SCREEN_H
                else player g);
          p2 = (if K_RIGHT inp then spaceship_move p1 1 SCREEN_W SCREEN_H else p1);
          p3 = (if K_SPACE inp \<and> \<not> is_fired (bullet p2) then shoot p2 else p2)
      in g\<lparr>player := p3\<rparr>)"

text \<open>The body of \<^verbatim>\<open>for alien in alien_list\<close>, in the source's order. The first block
  is the test of the player's bullet against the alien.\<close>

definition hit_alien :: "spaceship \<Rightarrow> game \<Rightarrow> spaceship \<times> game" where
  "hit_alien alien g =
     (if check_collisions (bullet (player g)) (x_pos alien) (y_pos alien)
           (of_int (width alien)) (of_int (height alien))
      then
        (let g1 = g\<lparr>player := (player g)\<lparr>bullet := reset_bullets (bullet (player g))\<rparr>,
                    score := score g + 1\<rparr>;
             g2 = (if score g1 mod 25 = 0 then g1\<lparr>level := level g1 + 1\<rparr> else g1)
         in (alien\<lparr>is_killed := True\<rparr>, g2))
      else (alien, g))"

text \<open>The test of the alien's bullet against the player.\<close>

definition hit_player :: "spaceship \<Rightarrow> game \<Rightarrow> spaceship \<times> game" where
  "hit_player alien g =
     (if check_collisions (bullet alien) (x_pos (player g)) (y_pos (player g))
           (of_int (width (player g))) (of_int (height (player g)))
      then
        (let p1 = (player g)\<lparr>health := health (player g) - damage (bullet alien)\<rparr>;
             alien1 = alien\<lparr>bullet := reset_bullets (bullet alien)\<rparr>;
             p2 = (if health p1 < 0 then p1\<lparr>health := 0\<rparr> else p1)
         in (alien1, g\<lparr>player := p2\<rparr>))
      else (alien, g))"

datatype flow = Continue | Break

text \<open>One iteration, on the alien at index \<open>i\<close> of the list. The alien is an object
  in the list, so its updates are written back at \<open>i\<close>; \<^verbatim>\<open>alien_list.remove(alien)\<close>
  deletes that position (the aliens are distinct objects).\<close>

definition remove_at :: "nat \<Rightarrow> 'a list \<Rightarrow> 'a list" where
  "remove_at i xs = take i xs @ drop (Suc i) xs"

text \<open>The alien's shooting logic and the flight of its bullet.\<close>

definition alien_fire :: "spaceship \<Rightarrow> spaceship" where
  "alien_fire alien =
     (let alien1 = (if \<not> is_fired (bullet alien) then alien_shoot alien else alien)
      in alien1\<lparr>bullet := move_bullets (bullet alien1) 1\<rparr>)"

definition alien_iteration :: "nat \<Rightarrow> game \<Rightarrow> flow \<times> game" where
  "alien_iteration i g =
     (if is_killed (alien_list g ! i) then (Continue, g)
      else
        (let alien = spaceship_move (alien_list g ! i) 1 SCREEN_W SCREEN_H
         in if is_killed alien then
              (Break, g\<lparr>alien_list := (alien_list g)[i := alien],
                        is_game_over := True,
                        game_over_text := ''ALIENS REACHED YOU'',
                        player := (player g)\<lparr>health := 0\<rparr>\<rparr>)
            else
              (let (alien3, g1) = hit_alien (alien_fire alien) g;
                   (alien4, g2) = hit_player alien3 g1;
                   g3 = g2\<lparr>alien_list :=
                             (if is_killed alien4 then remove_at i (alien_list g2)
                              else (alien_list g2)[i := alien4])\<rparr>
               in if health (player g3) \<le> 0
                  then (Break, g3\<lparr>is_game_over := True\<rparr>)
                  else (Continue, g3))))"

lemma alien_iteration_length:
  "(f, g1) = alien_iteration i g \<Longrightarrow> length (alien_list g1) \<le> length (alien_list g)"
  by (auto simp: alien_iteration_def hit_alien_def hit_player_def remove_at_def Let_def
      split: prod.splits if_splits)

text \<open>The \<^verbatim>\<open>for\<close> loop. Python's list iterator keeps an index: after a removal at
  \<open>i\<close> the next alien visited is the one that is then at \<open>i + 1\<close>.\<close>

function alien_loop :: "nat \<Rightarrow> game \<Rightarrow> game" where
  "alien_loop i g =
     (if i < length (alien_list g) then
        (case alien_iteration i g of
           (Break, g1) \<Rightarrow> g1
         | (Continue, g1) \<Rightarrow> alien_loop (Suc i) g1)
      else g)"
  by pat_completeness auto
termination
  by (relation "measure (\<lambda>(i, g). length (alien_list g) - i)")
     (auto dest!: alien_iteration_length)

text \<open>The health pickup, once the score has reached the goal.\<close>

definition heart_step :: "game \<Rightarrow> game" where
  "heart_step g =
     (if score g \<ge> goal g then
        (if \<not> is_claimed (heart g) then
           (let h1 = heart_move (heart g) 1 SCREEN_W SCREEN_H
            in if check_collisions (bullet (player g)) (x_pos h1) (y_pos h1)
                    (of_int (width h1)) (of_int (height h1))
               then
                 (let p1 = (player g)\<lparr>health := health (player g) + restore_amount h1\<rparr>;
                      p2 = p1\<lparr>bullet := reset_bullets (bullet p1)\<rparr>;
                      p3 = (if health p2 > 100 then p2\<lparr>health := 100\<rparr> else p2)
                  in g\<lparr>heart := h1\<lparr>is_claimed := True\<rparr>, player := p3, goal := goal g + 10\<rparr>)
               else g\<lparr>heart := h1\<rparr>)
         else g\<lparr>heart := get_heart\<rparr>)
      else g)"

text \<open>The event loop at the top of the frame: a QUIT event clears \<^verbatim>\<open>running\<close>.\<close>

definition handle_events :: "frame_input \<Rightarrow> game \<Rightarrow> game" where
  "handle_events inp g = (if quit_event inp then g\<lparr>running := False\<rparr> else g)"

text \<open>Aliens are loaded while there are fewer of them than the level.\<close>

definition spawn_aliens :: "frame_input \<Rightarrow> game \<Rightarrow> game" where
  "spawn_aliens inp g =
     (if int (length (alien_list g)) < level g
      then g\<lparr>alien_list := load_aliens (alien_list g) (draws1 inp) (draws2 inp)\<rparr>
      else g)"

definition move_player_bullet :: "game \<Rightarrow> game" where
  "move_player_bullet g = g\<lparr>player := (player g)\<lparr>bullet := move_bullets (bullet (player g)) (-1)\<rparr>\<rparr>"

text \<open>
  One pass through the body of \<^verbatim>\<open>while running\<close>. \<^verbatim>\<open>game_over_menu\<close> never returns
  (each of its exits is \<^verbatim>\<open>quit_game\<close>), and the pause menu may quit as well: then the
  frame has no result.
\<close>

definition frame :: "frame_input \<Rightarrow> game \<Rightarrow> game option" where
  "frame inp g =
     (let g0 = handle_events inp g
      in if is_game_over g0 then None
         else if K_p inp \<and> \<not> pause_returns inp then None
         else
           (let g1 = player_controls inp g0;
                g2 = spawn_aliens inp g1;
                g3 = move_player_bullet g2;
                g4 = alien_loop 0 g3
            in Some (heart_step g4)))"

text \<open>The states of the \<^verbatim>\<open>while\<close> loop: the initial one, and the result of a frame
  from a state in which \<^verbatim>\<open>running\<close> still holds.\<close>

inductive reachable :: "game \<Rightarrow> bool" where
  start: "reachable init_game"
| step: "reachable g \<Longrightarrow> running g \<Longrightarrow> frame inp g = Some g1 \<Longrightarrow> reachable g1"

subsection \<open>game_logic.py: the score file\<close>

text \<open>
  Python strings are modelled as \<open>string\<close>, a character being a code point below 256.
  \<^verbatim>\<open>str.strip()\<close> removes the characters for which \<^verbatim>\<open>str.isspace\<close> holds; below 256
  these are 9 to 13, 28 to 32, 133 and 160.
\<close>

definition LF :: char where
  "LF = CHR 0x0A"

definition CR :: char where
  "CR = CHR 0x0D"

definition isspace :: "char \<Rightarrow> bool" where
  "isspace c =
     (let n = (of_char c :: nat)
      in (9 \<le> n \<and> n \<le> 13) \<or> (28 \<le> n \<and> n \<le> 32) \<or> n = 133 \<or> n = 160)"

definition strip :: "string \<Rightarrow> string" where
  "strip s = rev (dropWhile isspace (rev (dropWhile isspace s)))"

text \<open>\<^verbatim>\<open>line.split(": ")\<close>: the pieces between the non-overlapping occurrences of the
  separator, found from the left.\<close>

fun split_from :: "string \<Rightarrow> string \<Rightarrow> string list" where
  "split_from cur [] = [cur]"
| "split_from cur [c] = [cur @ [c]]"
| "split_from cur (c # d # cs) =
     (if c = CHR '':'' \<and> d = CHR '' '' then cur # split_from [] cs
      else split_from (cur @ [c]) (d # cs))"

definition split :: "string \<Rightarrow> string list" where
  "split s = split_from [] s"

text \<open>
  \<^verbatim>\<open>int(s)\<close> for a string: surrounding whitespace (of the characters of \<^verbatim>\<open>isspace\<close>,
  \<^verbatim>\<open>int\<close> does not remove 28 to 31), an optional sign, then decimal digits, where single
  underscores may stand between digits; anything else raises ValueError (here \<open>None\<close>).
  So does a numeral of more than 4300 digits, the default of the interpreter's limit on
  conversions between \<^verbatim>\<open>int\<close> and \<^verbatim>\<open>str\<close> (Python 3.11).
\<close>

definition int_max_str_digits :: nat where
  "int_max_str_digits = 4300"

definition int_space :: "char \<Rightarrow> bool" where
  "int_space c =
     (let n = (of_char c :: nat)
      in (9 \<le> n \<and> n \<le> 13) \<or> n = 32 \<or> n = 133 \<or> n = 160)"

definition int_strip :: "string \<Rightarrow> string" where
  "int_strip s = rev (dropWhile int_space (rev (dropWhile int_space s)))"

definition isdigit :: "char \<Rightarrow> bool" where
  "isdigit c \<longleftrightarrow> 48 \<le> (of_char c :: nat) \<and> (of_char c :: nat) \<le> 57"

fun int_digits :: "bool \<Rightarrow> int \<Rightarrow> string \<Rightarrow> int option" where
  "int_digits after_digit acc [] = (if after_digit then Some acc else None)"
| "int_digits after_digit acc (c # cs) =
     (if isdigit c then int_digits True (10 * acc + (int (of_char c) - 48)) cs
      else if c = CHR ''_'' \<and> after_digit then int_digits False acc cs
      else None)"

definition py_int :: "string \<Rightarrow> int option" where
  "py_int s =
     (case int_strip s of
        [] \<Rightarrow> None
      | c # cs \<Rightarrow>
          if length (filter isdigit (c # cs)) > int_max_str_digits then None
          else if c = CHR ''-'' then map_option uminus (int_digits False 0 cs)
          else if c = CHR ''+'' then int_digits False 0 cs
          else int_digits False 0 (c # cs))"





text \<open>
  \<^verbatim>\<open>file.readlines()\<close> in text mode: the lines of the text, each with its line end,
  where \<^verbatim>\<open>\n\<close>, \<^verbatim>\<open>\r\n\<close> and \<^verbatim>\<open>\r\<close> all end a line and are read as \<^verbatim>\<open>\n\<close>.
\<close>

fun readlines_from :: "string \<Rightarrow> string \<Rightarrow> string list" where
  "readlines_from cur [] = (if cur = [] then [] else [cur])"
| "readlines_from cur [c] = (if c = LF \<or> c = CR then [cur @ [LF]] else [cur @ [c]])"
| "readlines_from cur (c # d # cs) =
     (if c = CR \<and> d = LF then (cur @ [LF]) # readlines_from [] cs
      else if c = LF \<or> c = CR then (cur @ [LF]) # readlines_from [] (d # cs)
      else readlines_from (cur @ [c]) (d # cs))"

definition readlines :: "string \<Rightarrow> string list" where
  "readlines s = readlines_from [] s"

text \<open>
  The files: at a path there is no file, a file that cannot be opened, or a text file
  with its content. Opening for append creates a missing file; a path that cannot be
  created counts as \<open>Denied\<close>. (On the platform modelled, \<^verbatim>\<open>\n\<close> is written as it is.)
  In \<^verbatim>\<open>write_scores\<close> the file is opened before the line is formatted, so a score
  that cannot be formatted leaves a missing file created and empty.
\<close>

datatype file_state = NoFile | Denied | File string

type_synonym file_system = "string \<Rightarrow> file_state"

type_synonym score_list = "(string \<times> int) list"



text \<open>The loop of \<^verbatim>\<open>read_scores\<close> over the lines. A ValueError of \<^verbatim>\<open>int\<close> leaves the
  loop through the \<^verbatim>\<open>except\<close> clause: the result is False, with the list as it is
  then.\<close>

fun read_lines :: "score_list \<Rightarrow> string list \<Rightarrow> bool \<times> score_list" where
  "read_lines score_list [] = (True, score_list)"
| "read_lines score_list (l # ls) =
     (let line = strip l; parts = split line
      in if length parts = 2 then
           (case py_int (strip (parts ! 1)) of
              None \<Rightarrow> (False, score_list)
            | Some points \<Rightarrow> read_lines (score_list @ [(line, points)]) ls)
         else read_lines score_list ls)"

definition read_scores :: "score_list \<Rightarrow> string \<Rightarrow> file_system \<Rightarrow> bool \<times> score_list" where
  "read_scores score_list path fs =
     (case fs path of
        File text \<Rightarrow> read_lines score_list (readlines text)
      | _ \<Rightarrow> (False, score_list))"



text \<open>A file system with a single file.\<close>

definition one_file :: "string \<Rightarrow> string \<Rightarrow> file_system" where
  "one_file path text = (\<lambda>p. NoFile)(path := File text)"

text \<open>Vocabulary for the lines of a score file: the parts of a line, the lines that do
  not have exactly two parts, the parse of the second part, the two-part lines whose
  second part is not an integer, the well-formed lines, and the entries of the
  well-formed lines of a list.\<close>

definition parts_of :: "string \<Rightarrow> string list" where
  "parts_of l = split (strip l)"

definition score_of :: "string \<Rightarrow> int option" where
  "score_of l = py_int (strip (parts_of l ! 1))"

definition bad_score :: "string \<Rightarrow> bool" where
  "bad_score l \<longleftrightarrow> length (parts_of l) = 2 \<and> score_of l = None"

definition well_formed :: "string \<Rightarrow> bool" where
  "well_formed l \<longleftrightarrow> length (parts_of l) = 2 \<and> score_of l \<noteq> None"

definition entries :: "string list \<Rightarrow> score_list" where
  "entries ls = map (\<lambda>l. (strip l, the (score_of l))) (filter well_formed ls)"

text \<open>The line that \<^verbatim>\<open>write_scores("Ada", path, 42)\<close> appends.\<close>

definition ada_line :: string where
  "ada_line = ''Ada - Score: 42'' @ [LF]"

subsection \<open>Predicates of the statements\<close>

text \<open>The three spawn lanes: lane 1 is [75, 175], lane 2 is [325, 375], lane 3 is
  [525, 625].\<close>

definition in_lane :: "int \<Rightarrow> int \<Rightarrow> bool" where
  "in_lane lane x =
     (if lane = 1 then 75 \<le> x \<and> x \<le> 175
      else if lane = 2 then 325 \<le> x \<and> x \<le> 375
      else if lane = 3 then 525 \<le> x \<and> x \<le> 625
      else False)"

text \<open>The player's health is within [0, 100]; no alien bullet has negative damage and
  the pickup does not restore a negative amount.\<close>

definition health_inv :: "game \<Rightarrow> bool" where
  "health_inv g \<longleftrightarrow>
     0 \<le> health (player g) \<and> health (player g) \<le> 100
     \<and> (\<forall>a \<in> set (alien_list g). 0 \<le> damage (bullet a))
     \<and> 0 \<le> restore_amount (heart g)"

subsection \<open>Scenario states and invariants\<close>

text \<open>A player with health 5, and a small alien whose fired bullet (damage 10) is inside
  the player's rectangle.\<close>

definition struck_game :: game where
  "struck_game = init_game\<lparr>player := (player init_game)\<lparr>health := 5\<rparr>\<rparr>"

definition striking_alien :: spaceship where
  "striking_alien =
     (Spaceship 100 100 350 (-1) 3 1 (Bullet 5 20 0 0 30 10) 50 False)
       \<lparr>bullet := set_coordinates (Bullet 5 20 0 0 30 10) 300 750\<rparr>"

text \<open>A frame without key presses, with fixed draws.\<close>

definition idle_input :: frame_input where
  "idle_input =
     \<lparr>quit_event = False, K_LEFT = False, K_RIGHT = False, K_p = False, K_SPACE = False,
      pause_returns = True,
      draws1 = \<lparr>type_draw = 0, hint_draw = 1, pick_draw = 0, pos_draw = 3\<rparr>,
      draws2 = \<lparr>type_draw = 1, hint_draw = 1, pick_draw = 0, pos_draw = 3\<rparr>\<rparr>"

text \<open>A player with health 90 whose bullet is about to claim the heart.\<close>

definition healing_game :: game where
  "healing_game =
     init_game\<lparr>score := 10,
       player := (player init_game)
         \<lparr>health := 90, bullet := set_coordinates (Bullet 5 20 0 0 30 1) 350 (-100)\<rparr>\<rparr>"

text \<open>How a later state of a frame relates to the state \<open>g0\<close> at its start: either
  score and level are as at the start, or one alien has been killed (the score is one
  higher, the level one higher iff the new score is a multiple of 25) and the player's
  bullet has been reset.\<close>

definition kill_rel :: "game \<Rightarrow> game \<Rightarrow> bool" where
  "kill_rel g0 g \<longleftrightarrow>
     (if score g = score g0 then level g = level g0
      else score g = score g0 + 1
        \<and> level g = (if score g mod 25 = 0 then level g0 + 1 else level g0)
        \<and> \<not> is_fired (bullet (player g)))"

text \<open>The level is one more than the number of multiples of 25 the score has
  reached.\<close>

definition level_inv :: "game \<Rightarrow> bool" where
  "level_inv g \<longleftrightarrow> 0 \<le> score g \<and> level g = 1 + score g div 25"

text \<open>An alien under the player's bullet, in a game with score 24.\<close>

definition target_alien :: spaceship where
  "target_alien = Spaceship 100 100 390 440 3 1 (Bullet 5 20 0 0 30 10) 50 False"

definition kill_game :: game where
  "kill_game =
     init_game\<lparr>score := 24, alien_list := [target_alien],
       player := (player init_game)
         \<lparr>bullet := set_coordinates (Bullet 5 20 0 0 30 1) 350 430\<rparr>\<rparr>"

text \<open>A small alien one step above the danger line, followed by a second alien.\<close>

definition landing_alien :: spaceship where
  "landing_alien = Spaceship 100 100 390 728 3 1 (Bullet 5 20 0 0 30 10) 50 False"

definition landing_game :: game where
  "landing_game = init_game\<lparr>alien_list := [landing_alien, target_alien]\<rparr>"

text \<open>A medium alien whose next step puts it half a pixel above the danger line,
  followed by a second alien.\<close>

definition half_pixel_alien :: spaceship where
  "half_pixel_alien = Spaceship 120 120 400 718 (3 / 2) 1 (Bullet 5 20 0 0 30 25) 75 False"

definition half_pixel_game :: game where
  "half_pixel_game = init_game\<lparr>alien_list := [half_pixel_alien, target_alien]\<rparr>"

text \<open>The aliens of the game: one of the three kinds of \<^verbatim>\<open>load_aliens\<close>, at a whole number
  of steps below the place where it was created.\<close>

definition on_grid :: "spaceship \<Rightarrow> bool" where
  "on_grid a \<longleftrightarrow>
     \<not> is_player a
     \<and> (height a = 100 \<and> speed a = 3 \<or> height a = 120 \<and> speed a = 3 / 2
        \<or> height a = 150 \<and> speed a = 3 / 4)
     \<and> (\<exists>k::int. y_pos a = - (3 / 2) * of_int (height a) + speed a * of_int k)"

definition aliens_on_grid :: "game \<Rightarrow> bool" where
  "aliens_on_grid g \<longleftrightarrow> (\<forall>a \<in> set (alien_list g). on_grid a)"

text \<open>A bullet is fired iff it is strictly inside the vertical playfield; an alien is
  not the player, is more than one pixel high and has such a bullet; the player's Rect is inside
  the playfield; the game invariant collects these.\<close>

definition bullet_ok :: "bullet \<Rightarrow> bool" where
  "bullet_ok b \<longleftrightarrow> (is_fired b \<longleftrightarrow> 0 < y_pos b \<and> y_pos b < of_int SCREEN_H)"

definition alien_ok :: "spaceship \<Rightarrow> bool" where
  "alien_ok a \<longleftrightarrow> \<not> is_player a \<and> 1 < height a \<and> bullet_ok (bullet a)"

definition player_ok :: "spaceship \<Rightarrow> bool" where
  "player_ok p \<longleftrightarrow>
     is_player p \<and> 0 < placeholder_y p \<and> placeholder_y p < SCREEN_H \<and> bullet_ok (bullet p)"

definition bullets_inv :: "game \<Rightarrow> bool" where
  "bullets_inv g \<longleftrightarrow> player_ok (player g) \<and> (\<forall>a \<in> set (alien_list g). alien_ok a)"

text \<open>A frame in which SPACE is pressed.\<close>

definition shoot_input :: frame_input where
  "shoot_input = idle_input\<lparr>K_SPACE := True\<rparr>"


section \<open>Basic facts\<close>

declare get_rand_spawn.simps [simp del]
declare alien_loop.simps [simp del]

text \<open>Reading the bullet of a ship is independent of the ship's own geometry, and
  conversely.\<close>

lemma bullet_of_entity_update [simp]:
  "bullet (width_update f1 s) = bullet s"
  "bullet (height_update f2 s) = bullet s"
  "bullet (x_pos_update f3 s) = bullet s"
  "bullet (y_pos_update f4 s) = bullet s"
  "bullet (speed_update f5 s) = bullet s"
  "bullet (has_image_update f6 s) = bullet s"
  "bullet (placeholder_x_update f7 s) = bullet s"
  "bullet (placeholder_y_update f8 s) = bullet s"
  by (cases s, simp)+

lemma entity_of_bullet_update [simp]:
  "width (bullet_update f s) = width s"
  "height (bullet_update f s) = height s"
  "x_pos (bullet_update f s) = x_pos s"
  "y_pos (bullet_update f s) = y_pos s"
  "speed (bullet_update f s) = speed s"
  "has_image (bullet_update f s) = has_image s"
  "placeholder_x (bullet_update f s) = placeholder_x s"
  "placeholder_y (bullet_update f s) = placeholder_y s"
  by (cases s, simp)+

section \<open>Collision test\<close>

text \<open>
  C5. \<^verbatim>\<open>check_collisions\<close> is a point-in-rectangle test on the bullet's position: it
  returns True iff the bullet is fired, its y lies in [target_y, target_y + height] and
  its x lies in [target_x, target_x + width]. A fired bullet at (350, 400) collides with
  the rectangle (340, 390, 100, 100); the same bullet at y = 300 does not.
\<close>

theorem check_collisions_point_in_rect:
  "(check_collisions b x y w h \<longleftrightarrow>
      is_fired b \<and> y \<le> y_pos b \<and> y_pos b \<le> y + h \<and> x \<le> x_pos b \<and> x_pos b \<le> x + w)
   \<and> check_collisions (set_coordinates (Bullet 5 20 0 0 30 1) 350 400) 340 390 100 100
   \<and> \<not> check_collisions (set_coordinates (Bullet 5 20 0 0 30 1) 350 300) 340 390 100 100"
  by (simp add: check_collisions_def set_coordinates_def Bullet_def)

section \<open>Spawn lanes\<close>

lemma randint_range: "a \<le> b \<Longrightarrow> a \<le> randint a b d \<and> randint a b d \<le> b"
  unfolding randint_def
proof -
  assume "a \<le> b"
  then have "0 < nat (b - a + 1)" by simp
  then have "d mod nat (b - a + 1) < nat (b - a + 1)" by (rule mod_less_divisor)
  then show "a \<le> a + int (d mod nat (b - a + 1)) \<and> a + int (d mod nat (b - a + 1)) \<le> b"
    by linarith
qed

lemma get_rand_spawn_fresh:
  "previous_location l = 0 \<Longrightarrow> r \<in> {1, 2, 3} \<Longrightarrow>
   previous_location (get_rand_spawn l r p q) = r \<and>
   in_lane r (spawn_location (get_rand_spawn l r p q))"
  using randint_range [of 75 175 q] randint_range [of 325 375 q] randint_range [of 525 625 q]
  by (auto simp: get_rand_spawn.simps [of l r p q] in_lane_def Let_def)

lemma get_rand_spawn_again:
  "previous_location l \<in> {1, 2, 3} \<Longrightarrow>
   get_rand_spawn l r p q =
     get_rand_spawn (l\<lparr>previous_location := 0\<rparr>)
       (remove1 (previous_location l) [1, 2, 3] ! (p mod 2)) p q"
  by (subst get_rand_spawn.simps) (auto simp: choice_def Let_def numeral_2_eq_2)

lemma remaining_lane:
  "prev \<in> {1, 2, 3} \<Longrightarrow>
   remove1 prev [1, 2, 3 :: int] ! (p mod 2) \<in> {1, 2, 3} \<and> remove1 prev [1, 2, 3] ! (p mod 2) \<noteq> prev"
  by (cases "p mod 2 = 0") auto

text \<open>
  C3. On a dictionary whose \<^verbatim>\<open>previous_location\<close> is 1, 2 or 3, whatever the hint,
  \<^verbatim>\<open>get_rand_spawn\<close> assigns a lane other than the previous one: the lane is the element
  of the two remaining lanes that \<^verbatim>\<open>random.choice\<close> draws (each of the two for one parity
  of the draw), and \<^verbatim>\<open>spawn_location\<close> lies in that lane's range. Hence the next call on
  the resulting dictionary assigns a lane other than this one.
\<close>

theorem get_rand_spawn_other_lane:
  assumes "previous_location l \<in> {1, 2, 3}"
  shows "previous_location (get_rand_spawn l hint pick pos) \<in> {1, 2, 3}
    \<and> previous_location (get_rand_spawn l hint pick pos) \<noteq> previous_location l
    \<and> previous_location (get_rand_spawn l hint pick pos)
        = remove1 (previous_location l) [1, 2, 3] ! (pick mod 2)
    \<and> in_lane (previous_location (get_rand_spawn l hint pick pos))
         (spawn_location (get_rand_spawn l hint pick pos))
    \<and> previous_location (get_rand_spawn (get_rand_spawn l hint pick pos) hint2 pick2 pos2)
        \<noteq> previous_location (get_rand_spawn l hint pick pos)"
proof -
  let ?r = "remove1 (previous_location l) [1, 2, 3] ! (pick mod 2)"
  let ?l1 = "get_rand_spawn l hint pick pos"
  have r: "?r \<in> {1, 2, 3}" "?r \<noteq> previous_location l"
    using remaining_lane [OF assms] by auto
  have eq: "?l1 = get_rand_spawn (l\<lparr>previous_location := 0\<rparr>) ?r pick pos"
    by (rule get_rand_spawn_again [OF assms])
  have f: "previous_location ?l1 = ?r" "in_lane ?r (spawn_location ?l1)"
    using get_rand_spawn_fresh [of "l\<lparr>previous_location := 0\<rparr>" ?r pick pos] r(1) eq by auto
  have p1: "previous_location ?l1 \<in> {1, 2, 3}" using f r by simp
  let ?r2 = "remove1 (previous_location ?l1) [1, 2, 3] ! (pick2 mod 2)"
  have r2: "?r2 \<in> {1, 2, 3}" "?r2 \<noteq> previous_location ?l1"
    using remaining_lane [OF p1] by auto
  have "previous_location (get_rand_spawn ?l1 hint2 pick2 pos2) = ?r2"
    using get_rand_spawn_fresh [of "?l1\<lparr>previous_location := 0\<rparr>" ?r2 pick2 pos2] r2(1)
      get_rand_spawn_again [OF p1, of hint2 pick2 pos2] by auto
  with r2 f r show ?thesis by simp
qed

theorem get_rand_spawn_other_lane_witness:
  "previous_location \<lparr>spawn_location = 100, previous_location = 1\<rparr> \<in> {1, 2, 3}
   \<and> previous_location (get_rand_spawn \<lparr>spawn_location = 100, previous_location = 1\<rparr> 1 0 7) = 2
   \<and> in_lane 2 (spawn_location (get_rand_spawn \<lparr>spawn_location = 100, previous_location = 1\<rparr> 1 0 7))"
  using get_rand_spawn_other_lane [of "\<lparr>spawn_location = 100, previous_location = 1\<rparr>" 1 0 7 1 0 0]
  by auto

section \<open>The alien loop\<close>

text \<open>A property that every iteration preserves holds after the loop.\<close>

lemma alien_loop_rule:
  assumes "P g"
    and "\<And>i g f g1. P g \<Longrightarrow> i < length (alien_list g) \<Longrightarrow> alien_iteration i g = (f, g1) \<Longrightarrow> P g1"
  shows "P (alien_loop i g)"
  using assms(1)
proof (induction i g rule: alien_loop.induct)
  case (1 i g)
  show ?case
  proof (cases "i < length (alien_list g)")
    case False
    then show ?thesis using "1.prems" by (simp add: alien_loop.simps [of i g])
  next
    case True
    obtain f g1 where it: "alien_iteration i g = (f, g1)" by (cases "alien_iteration i g")
    have P1: "P g1" using assms(2) [OF "1.prems" True it] .
    show ?thesis
    proof (cases f)
      case Break
      then show ?thesis using True it P1 by (simp add: alien_loop.simps [of i g])
    next
      case Continue
      then have "P (alien_loop (Suc i) g1)"
        using "1.IH" [OF True it [symmetric]] P1 by simp
      then show ?thesis using True it Continue by (simp add: alien_loop.simps [of i g])
    qed
  qed
qed

text \<open>The three ways through one iteration: the alien is already killed; it reaches
  the danger line; it stays alive, fires, and the two collision tests are made.\<close>

lemma alien_iteration_cases [consumes 1, case_names dead reached alive]:
  assumes "alien_iteration i g = (f, g1)"
  obtains
    (dead) "is_killed (alien_list g ! i)" "f = Continue" "g1 = g"
  | (reached) "\<not> is_killed (alien_list g ! i)"
      "is_killed (spaceship_move (alien_list g ! i) 1 SCREEN_W SCREEN_H)"
      "f = Break"
      "g1 = g\<lparr>alien_list := (alien_list g)[i := spaceship_move (alien_list g ! i) 1 SCREEN_W SCREEN_H],
              is_game_over := True, game_over_text := ''ALIENS REACHED YOU'',
              player := (player g)\<lparr>health := 0\<rparr>\<rparr>"
  | (alive) a3 g2 a4 g3 where "\<not> is_killed (alien_list g ! i)"
      "\<not> is_killed (spaceship_move (alien_list g ! i) 1 SCREEN_W SCREEN_H)"
      "hit_alien (alien_fire (spaceship_move (alien_list g ! i) 1 SCREEN_W SCREEN_H)) g = (a3, g2)"
      "hit_player a3 g2 = (a4, g3)"
      "f = (if health (player g3) \<le> 0 then Break else Continue)"
      "g1 = g3\<lparr>alien_list := (if is_killed a4 then remove_at i (alien_list g3)
                                else (alien_list g3)[i := a4]),
               is_game_over := (health (player g3) \<le> 0 \<or> is_game_over g3)\<rparr>"
proof (cases "is_killed (alien_list g ! i)")
  case True
  then have "f = Continue" "g1 = g" using assms by (simp_all add: alien_iteration_def)
  with True show ?thesis by (rule dead)
next
  case False
  let ?a = "spaceship_move (alien_list g ! i) 1 SCREEN_W SCREEN_H"
  show ?thesis
  proof (cases "is_killed ?a")
    case True
    then have "(f, g1) = (Break, g\<lparr>alien_list := (alien_list g)[i := ?a],
              is_game_over := True, game_over_text := ''ALIENS REACHED YOU'',
              player := (player g)\<lparr>health := 0\<rparr>\<rparr>)"
      using assms False by (simp add: alien_iteration_def Let_def)
    then have "f = Break" "g1 = g\<lparr>alien_list := (alien_list g)[i := ?a],
              is_game_over := True, game_over_text := ''ALIENS REACHED YOU'',
              player := (player g)\<lparr>health := 0\<rparr>\<rparr>"
      by simp_all
    with False True show ?thesis by (rule reached)
  next
    case k: False
    obtain a3 g2 where h1: "hit_alien (alien_fire ?a) g = (a3, g2)"
      by (cases "hit_alien (alien_fire ?a) g")
    obtain a4 g3 where h2: "hit_player a3 g2 = (a4, g3)" by (cases "hit_player a3 g2")
    let ?l = "if is_killed a4 then remove_at i (alien_list g3) else (alien_list g3)[i := a4]"
    have "alien_iteration i g =
        (if health (player g3) \<le> 0 then (Break, g3\<lparr>alien_list := ?l, is_game_over := True\<rparr>)
         else (Continue, g3\<lparr>alien_list := ?l\<rparr>))"
      using False k h1 h2 by (simp add: alien_iteration_def Let_def)
    then have fg: "(f, g1) =
        (if health (player g3) \<le> 0 then (Break, g3\<lparr>alien_list := ?l, is_game_over := True\<rparr>)
         else (Continue, g3\<lparr>alien_list := ?l\<rparr>))"
      using assms by simp
    have f: "f = (if health (player g3) \<le> 0 then Break else Continue)"
      using fg by (simp split: if_splits)
    have g: "g1 = g3\<lparr>alien_list := ?l,
                     is_game_over := (health (player g3) \<le> 0 \<or> is_game_over g3)\<rparr>"
      using fg by (simp split: if_splits)
    show ?thesis by (rule alive [OF False k h1 h2 f g])
  qed
qed

lemma set_update_subset: "a \<in> set (xs[i := x]) \<Longrightarrow> a = x \<or> a \<in> set xs"
  by (metis insert_iff set_update_subset_insert subsetD)

lemma set_remove_at: "a \<in> set (remove_at i xs) \<Longrightarrow> a \<in> set xs"
  by (auto simp: remove_at_def dest: in_set_takeD in_set_dropD)

lemma frame_SomeD:
  assumes "frame inp g = Some g1"
  shows "g1 = heart_step (alien_loop 0 (move_player_bullet (spawn_aliens inp
           (player_controls inp (handle_events inp g)))))"
    and "\<not> is_game_over g"
  using assms by (simp_all add: frame_def handle_events_def Let_def split: if_splits)

lemma frame_idle_init: "frame idle_input init_game = Some (the (frame idle_input init_game))"
  by (simp add: frame_def handle_events_def idle_input_def init_game_def Let_def)

section \<open>Player health\<close>

lemma spaceship_move_keeps [simp]:
  "health (spaceship_move s d w h) = health s"
  "damage (bullet (spaceship_move s d w h)) = damage (bullet s)"
  by (simp_all add: spaceship_move_def Let_def)

lemma shoot_keeps [simp]:
  "health (shoot s) = health s"
  "damage (bullet (shoot s)) = damage (bullet s)"
  by (simp_all add: shoot_def set_coordinates_def Let_def)

lemma alien_shoot_keeps [simp]:
  "damage (bullet (alien_shoot s)) = damage (bullet s)"
  by (simp add: alien_shoot_def Let_def)

lemma move_bullets_damage [simp]: "damage (move_bullets b d) = damage b"
  by (simp add: move_bullets_def bullet_move_def Let_def)

lemma reset_bullets_damage [simp]: "damage (reset_bullets b) = damage b"
  by (simp add: reset_bullets_def)

lemma hit_alien_health:
  "hit_alien a g = (a1, g1) \<Longrightarrow>
   health (player g1) = health (player g) \<and> damage (bullet a1) = damage (bullet a)
   \<and> alien_list g1 = alien_list g \<and> heart g1 = heart g"
  by (auto simp: hit_alien_def Let_def split: if_splits)

lemma hit_player_health:
  "hit_player a g = (a1, g1) \<Longrightarrow> 0 \<le> health (player g) \<Longrightarrow>
   0 \<le> health (player g1) \<and> (0 \<le> damage (bullet a) \<longrightarrow> health (player g1) \<le> health (player g))
   \<and> damage (bullet a1) = damage (bullet a)
   \<and> alien_list g1 = alien_list g \<and> heart g1 = heart g"
  by (auto simp: hit_player_def Let_def split: if_splits)

lemma alien_fire_damage [simp]: "damage (bullet (alien_fire s)) = damage (bullet s)"
  by (simp add: alien_fire_def Let_def)

lemma alien_iteration_health_inv:
  assumes "health_inv g" "i < length (alien_list g)" "alien_iteration i g = (f, g1)"
  shows "health_inv g1"
  using assms(3)
proof (cases rule: alien_iteration_cases)
  case dead
  then show ?thesis using assms(1) by simp
next
  case reached
  then show ?thesis using assms(1,2)
    by (auto simp: health_inv_def dest!: set_update_subset)
next
  case (alive a3 g2 a4 g3)
  have d0: "0 \<le> damage (bullet (alien_list g ! i))"
    using assms(1,2) by (simp add: health_inv_def)
  note A = hit_alien_health [OF alive(3)]
  have hp: "0 \<le> health (player g2)" using A assms(1) by (simp add: health_inv_def)
  note B = hit_player_health [OF alive(4) hp]
  have d4: "0 \<le> damage (bullet a4)" using A B d0 by simp
  have "health (player g3) \<le> 100" using A B d0 assms(1) by (simp add: health_inv_def)
  then show ?thesis using alive(6) A B d4 assms(1)
    by (auto simp: health_inv_def dest!: set_update_subset set_remove_at)
qed

lemma new_alien_damage: "a \<in> set (new_alien t x) \<Longrightarrow> 0 \<le> damage (bullet a)"
  by (auto simp: new_alien_def Spaceship_def Bullet_def split: if_splits)

lemma load_aliens_from_damage:
  "\<forall>a \<in> set xs. 0 \<le> damage (bullet a) \<Longrightarrow>
   \<forall>a \<in> set (load_aliens_from l xs ds). 0 \<le> damage (bullet a)"
proof (induction ds arbitrary: l xs)
  case Nil
  then show ?case by simp
next
  case (Cons d ds)
  show ?case
    unfolding load_aliens_from.simps Let_def
    by (rule Cons.IH) (use Cons.prems new_alien_damage in auto)
qed

lemma load_aliens_damage:
  "\<forall>a \<in> set xs. 0 \<le> damage (bullet a) \<Longrightarrow>
   \<forall>a \<in> set (load_aliens xs d1 d2). 0 \<le> damage (bullet a)"
  unfolding load_aliens_def by (rule load_aliens_from_damage)

lemma player_controls_health [simp]:
  "health (player (player_controls inp g)) = health (player g)"
  "alien_list (player_controls inp g) = alien_list g"
  "heart (player_controls inp g) = heart g"
  by (simp_all add: player_controls_def Let_def)

lemma heart_move_restore [simp]: "restore_amount (heart_move e d w h) = restore_amount e"
  by (simp add: heart_move_def Let_def)

lemma heart_step_health_inv: "health_inv g \<Longrightarrow> health_inv (heart_step g)"
  by (auto simp: health_inv_def heart_step_def Let_def get_heart_def Heart_def)

lemma spawn_aliens_health_inv: "health_inv g \<Longrightarrow> health_inv (spawn_aliens inp g)"
  using load_aliens_damage [of "alien_list g" "draws1 inp" "draws2 inp"]
  by (simp add: health_inv_def spawn_aliens_def)

lemma frame_health_inv:
  assumes "health_inv g" "frame inp g = Some g1"
  shows "health_inv g1"
proof -
  have "health_inv (handle_events inp g)"
    using assms(1) by (simp add: health_inv_def handle_events_def)
  then have "health_inv (player_controls inp (handle_events inp g))"
    by (simp add: health_inv_def)
  then have "health_inv (spawn_aliens inp (player_controls inp (handle_events inp g)))"
    by (rule spawn_aliens_health_inv)
  then have "health_inv (move_player_bullet (spawn_aliens inp
      (player_controls inp (handle_events inp g))))"
    by (simp add: health_inv_def move_player_bullet_def)
  then have "health_inv (alien_loop 0 (move_player_bullet (spawn_aliens inp
      (player_controls inp (handle_events inp g)))))"
    by (rule alien_loop_rule) (rule alien_iteration_health_inv)
  then show ?thesis unfolding frame_SomeD(1) [OF assms(2)] by (rule heart_step_health_inv)
qed

lemma init_health_inv: "health_inv init_game"
  by (simp add: health_inv_def init_game_def Spaceship_def get_heart_def Heart_def)

lemma reachable_health_inv: "reachable g \<Longrightarrow> health_inv g"
  by (induction rule: reachable.induct) (auto intro: init_health_inv frame_health_inv)

text \<open>
  C2. The player's health stays within [0, 100]: in every state the game loop reaches;
  across every frame (given that no alien bullet has negative damage and the heart
  restores a non-negative amount, which the game's constructors ensure); a damage
  application never makes it negative, and health 5 struck by damage 10 gives exactly 0;
  a heart claim never raises it above 100.
\<close>

theorem player_health_in_range:
  "(reachable g \<longrightarrow> 0 \<le> health (player g) \<and> health (player g) \<le> 100)
   \<and> (health_inv g1 \<and> frame inp g1 = Some g2 \<longrightarrow> health_inv g2)
   \<and> (0 \<le> health (player g3) \<longrightarrow> 0 \<le> health (player (snd (hit_player alien g3))))
   \<and> (health (player g4) = 5 \<and> damage (bullet alien4) = 10 \<and>
        check_collisions (bullet alien4) (x_pos (player g4)) (y_pos (player g4))
          (of_int (width (player g4))) (of_int (height (player g4)))
        \<longrightarrow> health (player (snd (hit_player alien4 g4))) = 0)
   \<and> (health (player g5) \<le> 100 \<longrightarrow> health (player (heart_step g5)) \<le> 100)"
proof -
  have "health (player g5) \<le> 100 \<Longrightarrow> health (player (heart_step g5)) \<le> 100"
    by (simp add: heart_step_def Let_def)
  moreover have "0 \<le> health (player g3) \<Longrightarrow> 0 \<le> health (player (snd (hit_player alien g3)))"
    by (simp add: hit_player_def Let_def)
  moreover have "reachable g \<Longrightarrow> 0 \<le> health (player g) \<and> health (player g) \<le> 100"
    using reachable_health_inv [of g] by (simp add: health_inv_def)
  moreover have "health_inv g1 \<Longrightarrow> frame inp g1 = Some g2 \<Longrightarrow> health_inv g2"
    by (rule frame_health_inv)
  moreover have "health (player g4) = 5 \<Longrightarrow> damage (bullet alien4) = 10 \<Longrightarrow>
        check_collisions (bullet alien4) (x_pos (player g4)) (y_pos (player g4))
          (of_int (width (player g4))) (of_int (height (player g4)))
        \<Longrightarrow> health (player (snd (hit_player alien4 g4))) = 0"
    by (simp add: hit_player_def Let_def)
  ultimately show ?thesis by blast
qed


theorem player_health_in_range_witness:
  "reachable (the (frame idle_input init_game))
   \<and> 0 \<le> health (player (the (frame idle_input init_game)))
   \<and> health (player (the (frame idle_input init_game))) \<le> 100
   \<and> health_inv init_game
   \<and> frame idle_input init_game = Some (the (frame idle_input init_game))
   \<and> health_inv (the (frame idle_input init_game))
   \<and> 0 \<le> health (player struck_game)
   \<and> health (player struck_game) = 5 \<and> damage (bullet striking_alien) = 10
   \<and> check_collisions (bullet striking_alien) (x_pos (player struck_game))
        (y_pos (player struck_game)) (of_int (width (player struck_game)))
        (of_int (height (player struck_game)))
   \<and> health (player (snd (hit_player striking_alien struck_game))) = 0
   \<and> health (player healing_game) \<le> 100
   \<and> health (player (heart_step healing_game)) = 100"
proof -
  have r: "reachable (the (frame idle_input init_game))"
    by (rule reachable.step [OF reachable.start _ frame_idle_init]) (simp add: init_game_def)
  have i: "health_inv init_game" by (rule init_health_inv)
  have s: "health (player struck_game) = 5" "damage (bullet striking_alien) = 10"
    "check_collisions (bullet striking_alien) (x_pos (player struck_game))
        (y_pos (player struck_game)) (of_int (width (player struck_game)))
        (of_int (height (player struck_game)))"
    by (simp_all add: struck_game_def striking_alien_def init_game_def Spaceship_def Bullet_def
        set_coordinates_def check_collisions_def init_y_def)
  have h: "health (player healing_game) \<le> 100" "health (player (heart_step healing_game)) = 100"
    by (simp_all add: healing_game_def heart_step_def init_game_def Spaceship_def Bullet_def
        set_coordinates_def check_collisions_def init_y_def get_heart_def Heart_def
        heart_move_def rect_coord_def SCREEN_H_def SCREEN_W_def reset_bullets_def Let_def)
  show ?thesis
    using player_health_in_range [of "the (frame idle_input init_game)" init_game idle_input
        "the (frame idle_input init_game)" struck_game striking_alien struck_game striking_alien
        healing_game]
      r i s h frame_idle_init
    by simp
qed

section \<open>Score and level\<close>

lemma hit_alien_kill_rel:
  "hit_alien a g = (a1, g1) \<Longrightarrow> kill_rel g0 g \<Longrightarrow> kill_rel g0 g1"
  by (auto simp: hit_alien_def kill_rel_def check_collisions_def reset_bullets_def Let_def
      split: if_splits)

lemma hit_player_score:
  "hit_player a g = (a1, g1) \<Longrightarrow>
   score g1 = score g \<and> level g1 = level g \<and> bullet (player g1) = bullet (player g)"
  by (auto simp: hit_player_def Let_def split: if_splits)

lemma alien_iteration_kill_rel:
  assumes "kill_rel g0 g" "i < length (alien_list g)" "alien_iteration i g = (f, g1)"
  shows "kill_rel g0 g1"
  using assms(3)
proof (cases rule: alien_iteration_cases)
  case dead
  then show ?thesis using assms(1) by simp
next
  case reached
  then show ?thesis using assms(1) by (simp add: kill_rel_def)
next
  case (alive a3 g2 a4 g3)
  have "kill_rel g0 g2" using hit_alien_kill_rel [OF alive(3) assms(1)] .
  then have "kill_rel g0 g3" using hit_player_score [OF alive(4)] by (simp add: kill_rel_def)
  then show ?thesis using alive(6) by (simp add: kill_rel_def)
qed

lemma kill_rel_refl: "kill_rel g g"
  by (simp add: kill_rel_def)

lemma kill_rel_same:
  "kill_rel g0 g \<Longrightarrow> score g1 = score g \<Longrightarrow> level g1 = level g \<Longrightarrow>
   (\<not> is_fired (bullet (player g)) \<longrightarrow> \<not> is_fired (bullet (player g1))) \<Longrightarrow> kill_rel g0 g1"
  by (simp add: kill_rel_def)

lemma player_controls_score [simp]:
  "score (player_controls inp g) = score g"
  "level (player_controls inp g) = level g"
  by (simp_all add: player_controls_def Let_def)

lemma prelude_score:
  "score (move_player_bullet (spawn_aliens inp (player_controls inp (handle_events inp g)))) = score g"
  "level (move_player_bullet (spawn_aliens inp (player_controls inp (handle_events inp g)))) = level g"
  by (simp_all add: move_player_bullet_def spawn_aliens_def handle_events_def)

lemma heart_step_score:
  "score (heart_step g) = score g" "level (heart_step g) = level g"
  "\<not> is_fired (bullet (player g)) \<Longrightarrow> \<not> is_fired (bullet (player (heart_step g)))"
  by (simp_all add: heart_step_def reset_bullets_def Let_def)

lemma frame_kill_rel:
  assumes "frame inp g = Some g1"
  shows "kill_rel g g1"
proof -
  let ?g3 = "move_player_bullet (spawn_aliens inp (player_controls inp (handle_events inp g)))"
  have "kill_rel ?g3 (alien_loop 0 ?g3)"
    by (rule alien_loop_rule [where P = "kill_rel ?g3"])
      (rule kill_rel_refl, rule alien_iteration_kill_rel)
  then have "kill_rel ?g3 (heart_step (alien_loop 0 ?g3))"
    by (rule kill_rel_same) (simp_all add: heart_step_score)
  then have "kill_rel ?g3 g1" using frame_SomeD(1) [OF assms] by simp
  then show ?thesis
    unfolding kill_rel_def prelude_score .
qed

lemma div_25_step:
  "((n::int) + 1) div 25 = (if (n + 1) mod 25 = 0 then n div 25 + 1 else n div 25)"
proof -
  define q r where "q = n div 25" and "r = n mod 25"
  have n: "n = 25 * q + r" and r: "0 \<le> r" "r < 25"
    by (simp_all add: q_def r_def)
  show ?thesis
  proof (cases "r = 24")
    case True
    then have "n + 1 = 25 * (q + 1)" using n by simp
    then have "(n + 1) div 25 = q + 1" "(n + 1) mod 25 = 0" by simp_all
    then show ?thesis by (simp add: q_def)
  next
    case False
    then have r1: "0 \<le> r + 1" "r + 1 < 25" using r by simp_all
    have e: "n + 1 = (r + 1) + 25 * q" using n by simp
    have "(n + 1) div 25 = q" unfolding e using r1 by (simp add: div_pos_pos_trivial)
    moreover have "(n + 1) mod 25 = r + 1" unfolding e using r1 by (simp add: mod_pos_pos_trivial)
    moreover have "r + 1 \<noteq> 0" using r by simp
    ultimately show ?thesis by (simp add: q_def)
  qed
qed

lemma frame_level_inv:
  assumes "level_inv g" "frame inp g = Some g1"
  shows "level_inv g1"
proof -
  have k: "kill_rel g g1" using assms(2) by (rule frame_kill_rel)
  show ?thesis
  proof (cases "score g1 = score g")
    case True
    then show ?thesis using k assms(1) by (simp add: kill_rel_def level_inv_def)
  next
    case False
    then have s: "score g1 = score g + 1"
      and l: "level g1 = (if (score g + 1) mod 25 = 0 then level g + 1 else level g)"
      using k by (simp_all add: kill_rel_def)
    have "0 \<le> score g1" using s assms(1) by (simp add: level_inv_def)
    moreover have "level g1 = 1 + score g1 div 25"
      unfolding s l div_25_step using assms(1) by (simp add: level_inv_def)
    ultimately show ?thesis by (simp add: level_inv_def)
  qed
qed

lemma reachable_level_inv: "reachable g \<Longrightarrow> level_inv g"
proof (induction rule: reachable.induct)
  case start
  show ?case by (simp add: level_inv_def init_game_def)
next
  case (step g inp g1)
  then show ?case using frame_level_inv by blast
qed

lemma frame_idle_kill: "frame idle_input kill_game = Some (the (frame idle_input kill_game))"
  by (simp add: frame_def handle_events_def idle_input_def kill_game_def init_game_def Let_def)

text \<open>
  C6. A kill by the player's bullet (the test of \<^verbatim>\<open>check_collisions\<close> in the alien
  loop) adds exactly 1 to the score and, when the new score is a multiple of 25, exactly
  1 to the level; otherwise nothing changes. Over a whole frame the score and the level
  are either unchanged or changed by exactly one such kill, so nothing else changes
  them. In every reachable state the level is 1 + score div 25: reaching 25 gives level
  2, reaching 50 gives level 3.
\<close>

theorem score_and_level:
  "(hit_alien a g = (a1, g1) \<longrightarrow>
      (if check_collisions (bullet (player g)) (x_pos a) (y_pos a)
            (of_int (width a)) (of_int (height a))
       then is_killed a1 \<and> score g1 = score g + 1
         \<and> level g1 = (if (score g + 1) mod 25 = 0 then level g + 1 else level g)
       else a1 = a \<and> g1 = g))
   \<and> (frame inp g2 = Some g3 \<longrightarrow>
        (score g3 = score g2 \<and> level g3 = level g2) \<or>
        (score g3 = score g2 + 1
          \<and> level g3 = (if score g3 mod 25 = 0 then level g2 + 1 else level g2)))
   \<and> (reachable g4 \<longrightarrow> 0 \<le> score g4 \<and> level g4 = 1 + score g4 div 25)"
proof -
  have "hit_alien a g = (a1, g1) \<Longrightarrow>
      (if check_collisions (bullet (player g)) (x_pos a) (y_pos a)
            (of_int (width a)) (of_int (height a))
       then is_killed a1 \<and> score g1 = score g + 1
         \<and> level g1 = (if (score g + 1) mod 25 = 0 then level g + 1 else level g)
       else a1 = a \<and> g1 = g)"
    by (auto simp: hit_alien_def Let_def split: if_splits)
  moreover have "frame inp g2 = Some g3 \<Longrightarrow>
        (score g3 = score g2 \<and> level g3 = level g2) \<or>
        (score g3 = score g2 + 1
          \<and> level g3 = (if score g3 mod 25 = 0 then level g2 + 1 else level g2))"
    using frame_kill_rel [of inp g2 g3] by (simp add: kill_rel_def split: if_splits)
  moreover have "reachable g4 \<Longrightarrow> 0 \<le> score g4 \<and> level g4 = 1 + score g4 div 25"
    using reachable_level_inv [of g4] by (simp add: level_inv_def)
  ultimately show ?thesis by blast
qed

theorem score_and_level_witness:
  "hit_alien target_alien kill_game
     = (fst (hit_alien target_alien kill_game), snd (hit_alien target_alien kill_game))
   \<and> check_collisions (bullet (player kill_game)) (x_pos target_alien) (y_pos target_alien)
            (of_int (width target_alien)) (of_int (height target_alien))
   \<and> score kill_game = 24
   \<and> score (snd (hit_alien target_alien kill_game)) = 25
   \<and> level (snd (hit_alien target_alien kill_game)) = level kill_game + 1
   \<and> frame idle_input kill_game = Some (the (frame idle_input kill_game))
   \<and> score (the (frame idle_input kill_game)) = 25
   \<and> level (the (frame idle_input kill_game)) = level kill_game + 1
   \<and> reachable (the (frame idle_input init_game))
   \<and> level (the (frame idle_input init_game))
       = 1 + score (the (frame idle_input init_game)) div 25"
proof -
  have c: "check_collisions (bullet (player kill_game)) (x_pos target_alien) (y_pos target_alien)
            (of_int (width target_alien)) (of_int (height target_alien))"
    by code_simp
  have s: "score kill_game = 24" "level kill_game = 1"
    by (simp_all add: kill_game_def init_game_def)
  have f: "score (the (frame idle_input kill_game)) = 25"
    by code_simp
  have r: "reachable (the (frame idle_input init_game))"
    by (rule reachable.step [OF reachable.start _ frame_idle_init]) (simp add: init_game_def)
  show ?thesis
    using score_and_level [of target_alien kill_game "fst (hit_alien target_alien kill_game)"
        "snd (hit_alien target_alien kill_game)" idle_input kill_game
        "the (frame idle_input kill_game)" "the (frame idle_input init_game)"]
      c s f r frame_idle_kill
    by simp
qed

section \<open>The danger line\<close>

lemma rect_coord_ge: "0 < k \<Longrightarrow> k \<le> rect_coord q \<longleftrightarrow> of_int k - 1 / 2 \<le> q"
proof (cases "0 \<le> q")
  case True
  have "k \<le> \<lfloor>q + 1 / 2\<rfloor> \<longleftrightarrow> of_int k \<le> q + 1 / 2" by (rule le_floor_iff)
  also have "\<dots> \<longleftrightarrow> of_int k - 1 / 2 \<le> q" by linarith
  finally show ?thesis using True by (simp add: rect_coord_def)
next
  case False
  assume k: "0 < k"
  from False have "q - 1 / 2 \<le> 0" by simp
  then have c: "\<lceil>q - 1 / 2\<rceil> \<le> 0" by (simp add: ceiling_le_iff)
  have "(1::rat) \<le> of_int k" using k by simp
  then have "\<not> of_int k - 1 / 2 \<le> q" using False by linarith
  moreover have "\<not> k \<le> \<lceil>q - 1 / 2\<rceil>" using c k by linarith
  ultimately show ?thesis using False by (simp add: rect_coord_def)
qed

lemma alien_iteration_reached:
  assumes "\<not> is_killed (alien_list g ! i)"
    and "is_killed (spaceship_move (alien_list g ! i) 1 SCREEN_W SCREEN_H)"
  shows "alien_iteration i g =
    (Break, g\<lparr>alien_list := (alien_list g)[i := spaceship_move (alien_list g ! i) 1 SCREEN_W SCREEN_H],
              is_game_over := True, game_over_text := ''ALIENS REACHED YOU'',
              player := (player g)\<lparr>health := 0\<rparr>\<rparr>)"
  using assms by (simp add: alien_iteration_def Let_def)

lemma danger_line_facts:
  assumes "\<not> is_player s" and "\<not> is_killed s"
    and "i < length (alien_list g)" and "alien_list g ! i = s"
  shows "y_pos (spaceship_move s d w h) = y_pos s + speed s * d"
    and "placeholder_y (spaceship_move s d w h) = rect_coord (y_pos s + speed s * d)"
    and "is_killed (spaceship_move s d w h) \<longleftrightarrow>
           placeholder_y (spaceship_move s d w h) + height s \<ge> h - 120"
    and "height s < h - 120 \<longrightarrow>
           (is_killed (spaceship_move s d w h) \<longleftrightarrow>
              y_pos s + speed s * d + of_int (height s) \<ge> of_int (h - 120) - 1 / 2)"
    and "is_killed (spaceship_move s 1 SCREEN_W SCREEN_H) \<longrightarrow>
           alien_loop i g =
             g\<lparr>alien_list := (alien_list g)[i := spaceship_move s 1 SCREEN_W SCREEN_H],
               is_game_over := True, game_over_text := ''ALIENS REACHED YOU'',
               player := (player g)\<lparr>health := 0\<rparr>\<rparr>"
    and "is_killed (spaceship_move s 1 SCREEN_W SCREEN_H) \<longrightarrow>
           is_game_over (alien_loop i g)
           \<and> game_over_text (alien_loop i g) = ''ALIENS REACHED YOU''
           \<and> drop (Suc i) (alien_list (alien_loop i g)) = drop (Suc i) (alien_list g)"
proof -
  show "y_pos (spaceship_move s d w h) = y_pos s + speed s * d"
    and p: "placeholder_y (spaceship_move s d w h) = rect_coord (y_pos s + speed s * d)"
    and k: "is_killed (spaceship_move s d w h) \<longleftrightarrow>
           placeholder_y (spaceship_move s d w h) + height s \<ge> h - 120"
    using assms(1,2) by (simp_all add: spaceship_move_def Let_def)
  show "height s < h - 120 \<longrightarrow>
           (is_killed (spaceship_move s d w h) \<longleftrightarrow>
              y_pos s + speed s * d + of_int (height s) \<ge> of_int (h - 120) - 1 / 2)"
  proof
    assume "height s < h - 120"
    then have "0 < h - 120 - height s" by simp
    from rect_coord_ge [OF this, of "y_pos s + speed s * d"]
    have "h - 120 - height s \<le> rect_coord (y_pos s + speed s * d)
        \<longleftrightarrow> of_int (h - 120) - of_int (height s) - 1 / 2 \<le> y_pos s + speed s * d"
      by simp
    then show "is_killed (spaceship_move s d w h) \<longleftrightarrow>
              y_pos s + speed s * d + of_int (height s) \<ge> of_int (h - 120) - 1 / 2"
      unfolding k p by linarith
  qed
  have loop: "alien_loop i g =
             g\<lparr>alien_list := (alien_list g)[i := spaceship_move s 1 SCREEN_W SCREEN_H],
               is_game_over := True, game_over_text := ''ALIENS REACHED YOU'',
               player := (player g)\<lparr>health := 0\<rparr>\<rparr>"
    if "is_killed (spaceship_move s 1 SCREEN_W SCREEN_H)"
    using alien_iteration_reached [of g i] that assms(2,3,4)
    by (simp add: alien_loop.simps [of i g])
  then show "is_killed (spaceship_move s 1 SCREEN_W SCREEN_H) \<longrightarrow>
           alien_loop i g =
             g\<lparr>alien_list := (alien_list g)[i := spaceship_move s 1 SCREEN_W SCREEN_H],
               is_game_over := True, game_over_text := ''ALIENS REACHED YOU'',
               player := (player g)\<lparr>health := 0\<rparr>\<rparr>"
    by simp
  show "is_killed (spaceship_move s 1 SCREEN_W SCREEN_H) \<longrightarrow>
           is_game_over (alien_loop i g)
           \<and> game_over_text (alien_loop i g) = ''ALIENS REACHED YOU''
           \<and> drop (Suc i) (alien_list (alien_loop i g)) = drop (Suc i) (alien_list g)"
    using loop by (simp add: drop_update_cancel)
qed

lemma on_grid_move:
  assumes "on_grid a"
  shows "on_grid (spaceship_move a 1 w h)"
proof -
  obtain k :: int where k: "y_pos a = - (3 / 2) * of_int (height a) + speed a * of_int k"
    using assms by (auto simp: on_grid_def)
  have "y_pos a + speed a = - (3 / 2) * of_int (height a) + speed a * of_int (k + 1)"
    unfolding k by (simp add: algebra_simps)
  then have "\<exists>j::int. y_pos a + speed a = - (3 / 2) * of_int (height a) + speed a * of_int j"
    by blast
  then show ?thesis using assms
    by (simp add: on_grid_def spaceship_move_def Let_def)
qed

lemma alien_fire_geometry:
  "is_player (alien_fire a) = is_player a" "height (alien_fire a) = height a"
  "speed (alien_fire a) = speed a" "y_pos (alien_fire a) = y_pos a"
  by (simp_all add: alien_fire_def alien_shoot_def shoot_def Let_def)

lemma on_grid_fire: "on_grid a \<Longrightarrow> on_grid (alien_fire a)"
  by (simp add: on_grid_def alien_fire_geometry)

lemma hit_alien_grid:
  "hit_alien a g = (a1, g1) \<Longrightarrow> on_grid a \<Longrightarrow> aliens_on_grid g \<Longrightarrow>
   on_grid a1 \<and> aliens_on_grid g1"
  by (auto simp: hit_alien_def Let_def on_grid_def aliens_on_grid_def split: if_splits)

lemma hit_player_grid:
  "hit_player a g = (a1, g1) \<Longrightarrow> on_grid a \<Longrightarrow> aliens_on_grid g \<Longrightarrow>
   on_grid a1 \<and> aliens_on_grid g1"
  by (auto simp: hit_player_def Let_def on_grid_def aliens_on_grid_def split: if_splits)

lemma alien_iteration_grid:
  assumes "aliens_on_grid g" "i < length (alien_list g)" "alien_iteration i g = (f, g1)"
  shows "aliens_on_grid g1"
  using assms(3)
proof (cases rule: alien_iteration_cases)
  case dead
  then show ?thesis using assms(1) by simp
next
  case reached
  have "on_grid (alien_list g ! i)" using assms(1,2) by (simp add: aliens_on_grid_def)
  then have "on_grid (spaceship_move (alien_list g ! i) 1 SCREEN_W SCREEN_H)"
    by (rule on_grid_move)
  then show ?thesis using reached(4) assms(1)
    by (auto simp: aliens_on_grid_def dest!: set_update_subset)
next
  case (alive a3 g2 a4 g3)
  have "on_grid (alien_list g ! i)" using assms(1,2) by (simp add: aliens_on_grid_def)
  then have "on_grid (alien_fire (spaceship_move (alien_list g ! i) 1 SCREEN_W SCREEN_H))"
    by (intro on_grid_fire on_grid_move)
  then have "on_grid a3 \<and> aliens_on_grid g2" using hit_alien_grid [OF alive(3)] assms(1) by simp
  then have "on_grid a4 \<and> aliens_on_grid g3" using hit_player_grid [OF alive(4)] by simp
  then show ?thesis using alive(6)
    by (auto simp: aliens_on_grid_def dest!: set_update_subset set_remove_at)
qed

lemma new_alien_grid: "a \<in> set (new_alien t x) \<Longrightarrow> on_grid a"
proof -
  have "\<exists>k::int. (x::rat) = x + y * of_int k" for x y :: rat
    by (rule exI [of _ 0]) simp
  then show "a \<in> set (new_alien t x) \<Longrightarrow> on_grid a"
    by (auto simp: new_alien_def Spaceship_def on_grid_def init_y_def split: if_splits)
qed

lemma load_aliens_from_grid:
  "\<forall>a \<in> set xs. on_grid a \<Longrightarrow> \<forall>a \<in> set (load_aliens_from l xs ds). on_grid a"
proof (induction ds arbitrary: l xs)
  case Nil
  then show ?case by simp
next
  case (Cons d ds)
  show ?case
    unfolding load_aliens_from.simps Let_def
    by (rule Cons.IH) (use Cons.prems new_alien_grid in auto)
qed

lemma spawn_aliens_grid: "aliens_on_grid g \<Longrightarrow> aliens_on_grid (spawn_aliens inp g)"
  using load_aliens_from_grid [of "alien_list g"]
  by (simp add: aliens_on_grid_def spawn_aliens_def load_aliens_def del: load_aliens_from.simps)

lemma frame_grid:
  assumes "aliens_on_grid g" "frame inp g = Some g1"
  shows "aliens_on_grid g1"
proof -
  have "aliens_on_grid (handle_events inp g)"
    using assms(1) by (simp add: aliens_on_grid_def handle_events_def)
  then have "aliens_on_grid (player_controls inp (handle_events inp g))"
    by (simp add: aliens_on_grid_def)
  then have "aliens_on_grid (spawn_aliens inp (player_controls inp (handle_events inp g)))"
    by (rule spawn_aliens_grid)
  then have "aliens_on_grid (move_player_bullet (spawn_aliens inp
      (player_controls inp (handle_events inp g))))"
    by (simp add: aliens_on_grid_def move_player_bullet_def)
  then have "aliens_on_grid (alien_loop 0 (move_player_bullet (spawn_aliens inp
      (player_controls inp (handle_events inp g)))))"
    by (rule alien_loop_rule) (rule alien_iteration_grid)
  then show ?thesis unfolding frame_SomeD(1) [OF assms(2)]
    by (simp add: aliens_on_grid_def heart_step_def Let_def)
qed

lemma reachable_grid: "reachable g \<Longrightarrow> aliens_on_grid g"
proof (induction rule: reachable.induct)
  case start
  show ?case by (simp add: aliens_on_grid_def init_game_def)
next
  case (step g inp g1)
  then show ?case using frame_grid by blast
qed

lemma quarter_cmp:
  fixes q :: rat and n m :: int
  assumes "4 * q = of_int n"
  shows "of_int m - 1 / 2 \<le> q \<longleftrightarrow> 4 * m - 2 \<le> n"
    and "of_int m \<le> q \<longleftrightarrow> 4 * m \<le> n"
proof -
  have "of_int m - 1 / 2 \<le> q \<longleftrightarrow> (of_int (4 * m - 2) :: rat) \<le> 4 * q" by auto
  also have "\<dots> \<longleftrightarrow> 4 * m - 2 \<le> n" unfolding assms by (rule of_int_le_iff)
  finally show "of_int m - 1 / 2 \<le> q \<longleftrightarrow> 4 * m - 2 \<le> n" .
  have "of_int m \<le> q \<longleftrightarrow> (of_int (4 * m) :: rat) \<le> 4 * q" by auto
  also have "\<dots> \<longleftrightarrow> 4 * m \<le> n" unfolding assms by (rule of_int_le_iff)
  finally show "of_int m \<le> q \<longleftrightarrow> 4 * m \<le> n" .
qed

lemma grid_line:
  assumes "on_grid a"
  shows "of_int (SCREEN_H - 120 - height a) - 1 / 2 \<le> y_pos a + speed a
     \<longleftrightarrow> of_int (SCREEN_H - 120 - height a) \<le> y_pos a + speed a"
proof -
  obtain k :: int where k: "y_pos a = - (3 / 2) * of_int (height a) + speed a * of_int k"
    using assms by (auto simp: on_grid_def)
  consider "height a = 100" "speed a = 3" | "height a = 120" "speed a = 3 / 2"
    | "height a = 150" "speed a = 3 / 4"
    using assms by (auto simp: on_grid_def)
  then show ?thesis
  proof cases
    case 1
    have q: "4 * (y_pos a + speed a) = of_int (12 * k - 588)"
      unfolding k 1 by simp
    have m: "SCREEN_H - 120 - height a = 680" by (simp add: 1 SCREEN_H_def)
    have c: "4 * (680::int) - 2 \<le> 12 * k - 588 \<longleftrightarrow> 4 * 680 \<le> 12 * k - 588" by arith
    show ?thesis
      unfolding m quarter_cmp(1) [OF q] quarter_cmp(2) [OF q] by (rule c)
  next
    case 2
    have q: "4 * (y_pos a + speed a) = of_int (6 * k - 714)"
      unfolding k 2 by simp
    have m: "SCREEN_H - 120 - height a = 660" by (simp add: 2 SCREEN_H_def)
    have c: "4 * (660::int) - 2 \<le> 6 * k - 714 \<longleftrightarrow> 4 * 660 \<le> 6 * k - 714" by arith
    show ?thesis
      unfolding m quarter_cmp(1) [OF q] quarter_cmp(2) [OF q] by (rule c)
  next
    case 3
    have q: "4 * (y_pos a + speed a) = of_int (3 * k - 897)"
      unfolding k 3 by simp
    have m: "SCREEN_H - 120 - height a = 630" by (simp add: 3 SCREEN_H_def)
    have c: "4 * (630::int) - 2 \<le> 3 * k - 897 \<longleftrightarrow> 4 * 630 \<le> 3 * k - 897" by arith
    show ?thesis
      unfolding m quarter_cmp(1) [OF q] quarter_cmp(2) [OF q] by (rule c)
  qed
qed

lemma grid_kill:
  assumes "on_grid a" and "\<not> is_killed a"
  shows "is_killed (spaceship_move a 1 SCREEN_W SCREEN_H) \<longleftrightarrow>
     of_int (SCREEN_H - 120) \<le> y_pos a + speed a + of_int (height a)"
proof -
  have p: "0 < SCREEN_H - 120 - height a"
    using assms(1) by (auto simp: on_grid_def SCREEN_H_def)
  have "is_killed (spaceship_move a 1 SCREEN_W SCREEN_H) \<longleftrightarrow>
      SCREEN_H - 120 - height a \<le> rect_coord (y_pos a + speed a)"
    using assms by (auto simp: on_grid_def spaceship_move_def Let_def)
  also have "\<dots> \<longleftrightarrow> of_int (SCREEN_H - 120 - height a) - 1 / 2 \<le> y_pos a + speed a"
    by (rule rect_coord_ge [OF p])
  also have "\<dots> \<longleftrightarrow> of_int (SCREEN_H - 120 - height a) \<le> y_pos a + speed a"
    by (rule grid_line [OF assms(1)])
  also have "\<dots> \<longleftrightarrow> of_int (SCREEN_H - 120) \<le> y_pos a + speed a + of_int (height a)"
    by auto
  finally show ?thesis .
qed

text \<open>
  C7. For an alive enemy ship whose sprite has loaded, \<^verbatim>\<open>Spaceship.move\<close> adds
  speed * direction to y, moves the ship's Rect there (its y is \<^verbatim>\<open>y_pos\<close> rounded to the
  nearest pixel) and sets \<^verbatim>\<open>is_killed\<close> exactly when the bottom edge of that Rect, in
  which the ship is drawn, is at or below \<^verbatim>\<open>screen_h - 120\<close>; for a ship shorter than the
  line this is when \<^verbatim>\<open>y_pos + height\<close> is within half a pixel of the line or below it,
  and for every alive alien of a reachable state of the game it is exactly when
  \<^verbatim>\<open>y_pos + height\<close> is at or below the line. When that happens in the alien loop, the loop stops there: the game is over with the
  text "ALIENS REACHED YOU", whatever the player's health, and the aliens after this one
  are not processed.
\<close>

theorem danger_line_game_over:
  assumes "\<not> is_player s" and "\<not> is_killed s"
    and "i < length (alien_list g)" and "alien_list g ! i = s"
    and "has_image s"
  shows "y_pos (spaceship_move s d w h) = y_pos s + speed s * d
    \<and> placeholder_y (spaceship_move s d w h) = rect_coord (y_pos s + speed s * d)
    \<and> (is_killed (spaceship_move s d w h) \<longleftrightarrow>
           placeholder_y (spaceship_move s d w h) + height s \<ge> h - 120)
    \<and> (height s < h - 120 \<longrightarrow>
           (is_killed (spaceship_move s d w h) \<longleftrightarrow>
              y_pos s + speed s * d + of_int (height s) \<ge> of_int (h - 120) - 1 / 2))
    \<and> (is_killed (spaceship_move s 1 SCREEN_W SCREEN_H) \<longrightarrow>
           alien_loop i g =
             g\<lparr>alien_list := (alien_list g)[i := spaceship_move s 1 SCREEN_W SCREEN_H],
               is_game_over := True, game_over_text := ''ALIENS REACHED YOU'',
               player := (player g)\<lparr>health := 0\<rparr>\<rparr>
           \<and> is_game_over (alien_loop i g)
           \<and> game_over_text (alien_loop i g) = ''ALIENS REACHED YOU''
           \<and> drop (Suc i) (alien_list (alien_loop i g)) = drop (Suc i) (alien_list g))
    \<and> (reachable g0 \<and> a \<in> set (alien_list g0) \<and> \<not> is_killed a \<longrightarrow>
           (is_killed (spaceship_move a 1 SCREEN_W SCREEN_H) \<longleftrightarrow>
              of_int (SCREEN_H - 120) \<le> y_pos a + speed a + of_int (height a)))"
proof -
  have "is_killed (spaceship_move a 1 SCREEN_W SCREEN_H) \<longleftrightarrow>
      of_int (SCREEN_H - 120) \<le> y_pos a + speed a + of_int (height a)"
    if "reachable g0" "a \<in> set (alien_list g0)" "\<not> is_killed a"
  proof -
    have "on_grid a" using reachable_grid [OF that(1)] that(2) by (simp add: aliens_on_grid_def)
    then show ?thesis using that(3) by (rule grid_kill)
  qed
  then show ?thesis using danger_line_facts [OF assms(1-4)] by blast
qed

theorem danger_line_game_over_witness:
  "\<not> is_player half_pixel_alien \<and> \<not> is_killed half_pixel_alien
   \<and> 0 < length (alien_list half_pixel_game)
   \<and> alien_list half_pixel_game ! 0 = half_pixel_alien
   \<and> has_image half_pixel_alien
   \<and> height half_pixel_alien < SCREEN_H - 120
   \<and> y_pos (spaceship_move half_pixel_alien 1 SCREEN_W SCREEN_H) = 1319 / 2
   \<and> placeholder_y (spaceship_move half_pixel_alien 1 SCREEN_W SCREEN_H) = 660
   \<and> is_killed (spaceship_move half_pixel_alien 1 SCREEN_W SCREEN_H)
   \<and> is_game_over (alien_loop 0 half_pixel_game)
   \<and> game_over_text (alien_loop 0 half_pixel_game) = ''ALIENS REACHED YOU''
   \<and> drop (Suc 0) (alien_list (alien_loop 0 half_pixel_game)) = [target_alien]
   \<and> reachable (the (frame idle_input init_game))
   \<and> alien_list (the (frame idle_input init_game)) ! 1
       \<in> set (alien_list (the (frame idle_input init_game)))
   \<and> \<not> is_killed (alien_list (the (frame idle_input init_game)) ! 1)
   \<and> y_pos (alien_list (the (frame idle_input init_game)) ! 1) = - (357 / 2)
   \<and> (is_killed (spaceship_move (alien_list (the (frame idle_input init_game)) ! 1)
           1 SCREEN_W SCREEN_H) \<longleftrightarrow>
        of_int (SCREEN_H - 120)
          \<le> y_pos (alien_list (the (frame idle_input init_game)) ! 1)
            + speed (alien_list (the (frame idle_input init_game)) ! 1)
            + of_int (height (alien_list (the (frame idle_input init_game)) ! 1)))"
proof -
  have r: "reachable (the (frame idle_input init_game))"
    by (rule reachable.step [OF reachable.start _ frame_idle_init]) (simp add: init_game_def)
  have e: "alien_list (the (frame idle_input init_game)) ! 1
       \<in> set (alien_list (the (frame idle_input init_game)))"
    "\<not> is_killed (alien_list (the (frame idle_input init_game)) ! 1)"
    "y_pos (alien_list (the (frame idle_input init_game)) ! 1) = - (357 / 2)"
    by code_simp+
  have a: "\<not> is_player half_pixel_alien" "\<not> is_killed half_pixel_alien"
    "0 < length (alien_list half_pixel_game)"
    "alien_list half_pixel_game ! 0 = half_pixel_alien"
    "has_image half_pixel_alien"
    by (simp_all add: half_pixel_alien_def half_pixel_game_def Spaceship_def)
  have b: "height half_pixel_alien < SCREEN_H - 120"
    "y_pos half_pixel_alien + speed half_pixel_alien * 1 = 1319 / 2"
    "rect_coord (1319 / 2) = 660"
    "height half_pixel_alien = 120"
    "drop (Suc 0) (alien_list half_pixel_game) = [target_alien]"
    by (simp_all add: half_pixel_alien_def half_pixel_game_def Spaceship_def SCREEN_H_def
        init_y_def rect_coord_def)
  note T = danger_line_game_over [OF a, where d = 1 and w = SCREEN_W and h = SCREEN_H
      and ?g0.0 = "the (frame idle_input init_game)"
      and a = "alien_list (the (frame idle_input init_game)) ! 1", unfolded b]
  have k: "is_killed (spaceship_move half_pixel_alien 1 SCREEN_W SCREEN_H)"
    using T by (simp add: SCREEN_H_def)
  have g: "is_killed (spaceship_move (alien_list (the (frame idle_input init_game)) ! 1)
           1 SCREEN_W SCREEN_H) \<longleftrightarrow>
        of_int (SCREEN_H - 120)
          \<le> y_pos (alien_list (the (frame idle_input init_game)) ! 1)
            + speed (alien_list (the (frame idle_input init_game)) ! 1)
            + of_int (height (alien_list (the (frame idle_input init_game)) ! 1))"
    using T r e(1,2) by blast
  have "y_pos (spaceship_move half_pixel_alien 1 SCREEN_W SCREEN_H) = 1319 / 2"
    "placeholder_y (spaceship_move half_pixel_alien 1 SCREEN_W SCREEN_H) = 660"
    "is_game_over (alien_loop 0 half_pixel_game)"
    "game_over_text (alien_loop 0 half_pixel_game) = ''ALIENS REACHED YOU''"
    "drop (Suc 0) (alien_list (alien_loop 0 half_pixel_game)) = [target_alien]"
    using T k b(5) by simp_all
  then show ?thesis
    using k a b(1) r e g by (intro conjI)
qed

text \<open>
  C9. When an alive alien crosses the danger line, the iteration breaks out of the loop
  and the player's health is overwritten with 0, whatever it was; no other field of the
  player changes, and heart, score, level and goal are untouched.
\<close>

theorem danger_line_sets_health_zero:
  assumes "i < length (alien_list g)" and "\<not> is_killed (alien_list g ! i)"
    and "is_killed (spaceship_move (alien_list g ! i) 1 SCREEN_W SCREEN_H)"
  shows "fst (alien_iteration i g) = Break
    \<and> player (snd (alien_iteration i g)) = (player g)\<lparr>health := 0\<rparr>
    \<and> health (player (snd (alien_iteration i g))) = 0
    \<and> heart (snd (alien_iteration i g)) = heart g
    \<and> score (snd (alien_iteration i g)) = score g
    \<and> level (snd (alien_iteration i g)) = level g
    \<and> goal (snd (alien_iteration i g)) = goal g"
  using alien_iteration_reached [OF assms(2,3)] by simp


theorem danger_line_sets_health_zero_witness:
  "0 < length (alien_list landing_game) \<and> \<not> is_killed (alien_list landing_game ! 0)
   \<and> is_killed (spaceship_move (alien_list landing_game ! 0) 1 SCREEN_W SCREEN_H)
   \<and> health (player landing_game) = 100
   \<and> fst (alien_iteration 0 landing_game) = Break
   \<and> player (snd (alien_iteration 0 landing_game)) = (player landing_game)\<lparr>health := 0\<rparr>"
proof -
  have a: "0 < length (alien_list landing_game)" "\<not> is_killed (alien_list landing_game ! 0)"
    "is_killed (spaceship_move (alien_list landing_game ! 0) 1 SCREEN_W SCREEN_H)"
    "health (player landing_game) = 100"
    by code_simp+
  show ?thesis using danger_line_sets_health_zero [OF a(1,2,3)] a by simp
qed

section \<open>Bullets and the playfield\<close>

lemma bullet_move_fired:
  "y_pos (bullet_move b d w h) = y_pos b + speed b * d"
  "is_fired (bullet_move b d w h) \<longleftrightarrow>
     is_fired b \<and> 0 < y_pos b + speed b * d \<and> y_pos b + speed b * d < of_int h"
  by (auto simp: bullet_move_def Let_def)

lemma move_bullets_ok: "bullet_ok b \<Longrightarrow> bullet_ok (move_bullets b d)"
  by (auto simp: bullet_ok_def move_bullets_def bullet_move_fired)

lemma reset_bullets_ok: "bullet_ok (reset_bullets b)"
  by (simp add: bullet_ok_def reset_bullets_def)

lemma set_coordinates_ok:
  "0 < y \<Longrightarrow> y < of_int SCREEN_H \<Longrightarrow> bullet_ok (set_coordinates b x y)"
  by (simp add: bullet_ok_def set_coordinates_def)

lemma rect_coord_near: "q - 1 / 2 \<le> of_int (rect_coord q)"
proof (cases "0 \<le> q")
  case True
  have "q + 1 / 2 < of_int (\<lfloor>q + 1 / 2\<rfloor> + 1)" using floor_correct [of "q + 1 / 2"] by simp
  then have "q - 1 / 2 \<le> of_int \<lfloor>q + 1 / 2\<rfloor>" by simp
  then show ?thesis using True by (simp add: rect_coord_def)
next
  case False
  have "q - 1 / 2 \<le> of_int \<lceil>q - 1 / 2\<rceil>" by (rule le_of_int_ceiling)
  then show ?thesis using False by (simp add: rect_coord_def)
qed

lemma spaceship_move_player:
  "player_ok p \<Longrightarrow> player_ok (spaceship_move p d w h)"
  by (simp add: player_ok_def spaceship_move_def Let_def)

lemma shoot_player: "player_ok p \<Longrightarrow> player_ok (shoot p)"
  by (simp add: player_ok_def shoot_def Let_def set_coordinates_ok)

lemma player_controls_bullets: "bullets_inv g \<Longrightarrow> bullets_inv (player_controls inp g)"
  by (simp add: bullets_inv_def player_controls_def Let_def spaceship_move_player shoot_player)

lemma spaceship_move_alien:
  assumes "alien_ok a"
  shows "alien_ok (spaceship_move a d w h)"
    and "placeholder_y (spaceship_move a d w h) = rect_coord (y_pos (spaceship_move a d w h))"
    and "\<not> is_killed a \<Longrightarrow> \<not> is_killed (spaceship_move a d w h) \<Longrightarrow>
         placeholder_y (spaceship_move a d w h) + height (spaceship_move a d w h) < h - 120"
  using assms by (auto simp: alien_ok_def spaceship_move_def Let_def split: if_splits)

lemma alien_shoot_ok:
  assumes "alien_ok a" "placeholder_y a = rect_coord (y_pos a)"
    "placeholder_y a + height a < SCREEN_H - 120"
  shows "alien_ok (alien_shoot a)"
proof (cases "shoot_timer a + 1 \<ge> shoot_delay a \<and> y_pos a + of_int (height a) / 2 \<ge> 0")
  case False
  then show ?thesis using assms(1) by (auto simp: alien_shoot_def alien_ok_def Let_def)
next
  case True
  have h: "1 < height a" "\<not> is_player a" using assms(1) by (simp_all add: alien_ok_def)
  have h1: "(1::rat) < of_int (height a)" using h(1) by simp
  have "- (of_int (height a) / 2) \<le> y_pos a" using True by simp
  moreover have "y_pos a - 1 / 2 \<le> of_int (rect_coord (y_pos a))" by (rule rect_coord_near)
  ultimately have "(0::rat) < of_int (rect_coord (y_pos a)) + of_int (height a)"
    using h1 by linarith
  then have lo: "(0::rat) < of_int (placeholder_y a + height a)"
    using assms(2) by simp
  have "placeholder_y a + height a < SCREEN_H" using assms(3) by simp
  then have hi: "(of_int (placeholder_y a + height a) :: rat) < of_int SCREEN_H"
    by (simp only: of_int_less_iff)
  have "bullet_ok (set_coordinates (bullet a)
      (of_int (placeholder_x a) + of_int (width a) / 2 - of_int (width (bullet a)) / 2)
      (of_int (placeholder_y a + height a)))"
    using lo hi by (rule set_coordinates_ok)
  then show ?thesis using True h
    by (simp add: alien_shoot_def alien_ok_def shoot_def Let_def)
qed

lemma alien_fire_ok:
  assumes "alien_ok a" "placeholder_y a = rect_coord (y_pos a)"
    "placeholder_y a + height a < SCREEN_H - 120"
  shows "alien_ok (alien_fire a)"
proof -
  let ?a1 = "if \<not> is_fired (bullet a) then alien_shoot a else a"
  have "alien_ok ?a1" using alien_shoot_ok [OF assms] assms(1) by simp
  then show ?thesis
    by (simp add: alien_fire_def Let_def alien_ok_def move_bullets_ok)
qed

lemma hit_alien_bullets:
  "hit_alien a g = (a1, g1) \<Longrightarrow> alien_ok a \<Longrightarrow> bullets_inv g \<Longrightarrow>
   alien_ok a1 \<and> bullets_inv g1"
  by (auto simp: hit_alien_def Let_def alien_ok_def bullets_inv_def player_ok_def
      reset_bullets_ok split: if_splits)

lemma hit_player_bullets:
  "hit_player a g = (a1, g1) \<Longrightarrow> alien_ok a \<Longrightarrow> bullets_inv g \<Longrightarrow>
   alien_ok a1 \<and> bullets_inv g1"
  by (auto simp: hit_player_def Let_def alien_ok_def bullets_inv_def player_ok_def
      reset_bullets_ok split: if_splits)

lemma alien_iteration_bullets_inv:
  assumes "bullets_inv g" "i < length (alien_list g)" "alien_iteration i g = (f, g1)"
  shows "bullets_inv g1"
  using assms(3)
proof (cases rule: alien_iteration_cases)
  case dead
  then show ?thesis using assms(1) by simp
next
  case reached
  have "alien_ok (alien_list g ! i)" using assms(1,2) by (simp add: bullets_inv_def)
  then have "alien_ok (spaceship_move (alien_list g ! i) 1 SCREEN_W SCREEN_H)"
    by (rule spaceship_move_alien(1))
  then show ?thesis using reached(4) assms(1)
    by (auto simp: bullets_inv_def player_ok_def dest!: set_update_subset)
next
  case (alive a3 g2 a4 g3)
  let ?a = "spaceship_move (alien_list g ! i) 1 SCREEN_W SCREEN_H"
  have a0: "alien_ok (alien_list g ! i)" using assms(1,2) by (simp add: bullets_inv_def)
  have "alien_ok (alien_fire ?a)"
    using spaceship_move_alien [OF a0, of 1 SCREEN_W SCREEN_H] alive(1,2)
    by (intro alien_fire_ok) simp_all
  then have "alien_ok a3 \<and> bullets_inv g2" using hit_alien_bullets [OF alive(3)] assms(1) by simp
  then have "alien_ok a4 \<and> bullets_inv g3" using hit_player_bullets [OF alive(4)] by simp
  then show ?thesis using alive(6)
    by (auto simp: bullets_inv_def dest!: set_update_subset set_remove_at)
qed

lemma new_alien_ok: "a \<in> set (new_alien t x) \<Longrightarrow> alien_ok a"
  by (auto simp: new_alien_def Spaceship_def Bullet_def alien_ok_def bullet_ok_def split: if_splits)

lemma load_aliens_from_ok:
  "\<forall>a \<in> set xs. alien_ok a \<Longrightarrow> \<forall>a \<in> set (load_aliens_from l xs ds). alien_ok a"
proof (induction ds arbitrary: l xs)
  case Nil
  then show ?case by simp
next
  case (Cons d ds)
  show ?case
    unfolding load_aliens_from.simps Let_def
    by (rule Cons.IH) (use Cons.prems new_alien_ok in auto)
qed

lemma load_aliens_ok:
  "\<forall>a \<in> set xs. alien_ok a \<Longrightarrow> \<forall>a \<in> set (load_aliens xs d1 d2). alien_ok a"
  unfolding load_aliens_def by (rule load_aliens_from_ok)

lemma spawn_aliens_bullets: "bullets_inv g \<Longrightarrow> bullets_inv (spawn_aliens inp g)"
  using load_aliens_ok [of "alien_list g" "draws1 inp" "draws2 inp"]
  by (simp add: bullets_inv_def spawn_aliens_def)

lemma move_player_bullet_bullets: "bullets_inv g \<Longrightarrow> bullets_inv (move_player_bullet g)"
  by (simp add: bullets_inv_def move_player_bullet_def player_ok_def move_bullets_ok)

lemma heart_step_bullets: "bullets_inv g \<Longrightarrow> bullets_inv (heart_step g)"
  by (simp add: bullets_inv_def heart_step_def Let_def player_ok_def reset_bullets_ok)

lemma frame_bullets_inv:
  assumes "bullets_inv g" "frame inp g = Some g1"
  shows "bullets_inv g1"
proof -
  have "bullets_inv (handle_events inp g)"
    using assms(1) by (simp add: bullets_inv_def handle_events_def)
  then have "bullets_inv (move_player_bullet (spawn_aliens inp
      (player_controls inp (handle_events inp g))))"
    by (intro move_player_bullet_bullets spawn_aliens_bullets player_controls_bullets)
  then have "bullets_inv (alien_loop 0 (move_player_bullet (spawn_aliens inp
      (player_controls inp (handle_events inp g)))))"
    by (rule alien_loop_rule) (rule alien_iteration_bullets_inv)
  then show ?thesis unfolding frame_SomeD(1) [OF assms(2)] by (rule heart_step_bullets)
qed

lemma init_bullets_inv: "bullets_inv init_game"
  by (simp add: bullets_inv_def init_game_def player_ok_def Spaceship_def Bullet_def
      bullet_ok_def init_y_def SCREEN_H_def)

lemma reachable_bullets_inv: "reachable g \<Longrightarrow> bullets_inv g"
  by (induction rule: reachable.induct) (auto intro: init_bullets_inv frame_bullets_inv)

lemma frame_shoot_init: "frame shoot_input init_game = Some (the (frame shoot_input init_game))"
  by (simp add: frame_def handle_events_def shoot_input_def idle_input_def init_game_def Let_def)

text \<open>
  C4. \<^verbatim>\<open>Bullet.move\<close> adds speed * direction to y, and afterwards the bullet is fired iff
  it was fired and the new y is strictly between 0 and \<^verbatim>\<open>screen_h\<close> (it is disarmed
  exactly when y <= 0 or y >= screen_h, and never armed). \<^verbatim>\<open>reset_bullets\<close> clears the
  flag and puts the bullet at (SCREEN_W, SCREEN_H). In every reachable state of the game
  loop, the player's bullet and every alien's bullet is fired iff its y is strictly
  inside (0, SCREEN_H).
\<close>

theorem bullet_fired_iff_inside:
  "y_pos (bullet_move b d w h) = y_pos b + speed b * d
   \<and> (is_fired (bullet_move b d w h) \<longleftrightarrow>
        is_fired b \<and> 0 < y_pos (bullet_move b d w h) \<and> y_pos (bullet_move b d w h) < of_int h)
   \<and> \<not> is_fired (reset_bullets b)
   \<and> x_pos (reset_bullets b) = of_int SCREEN_W \<and> y_pos (reset_bullets b) = of_int SCREEN_H
   \<and> (reachable g \<longrightarrow>
        (is_fired (bullet (player g)) \<longleftrightarrow>
           0 < y_pos (bullet (player g)) \<and> y_pos (bullet (player g)) < of_int SCREEN_H)
        \<and> (\<forall>a \<in> set (alien_list g).
             is_fired (bullet a) \<longleftrightarrow> 0 < y_pos (bullet a) \<and> y_pos (bullet a) < of_int SCREEN_H))"
proof -
  have "reachable g \<Longrightarrow>
        (is_fired (bullet (player g)) \<longleftrightarrow>
           0 < y_pos (bullet (player g)) \<and> y_pos (bullet (player g)) < of_int SCREEN_H)
        \<and> (\<forall>a \<in> set (alien_list g).
             is_fired (bullet a) \<longleftrightarrow> 0 < y_pos (bullet a) \<and> y_pos (bullet a) < of_int SCREEN_H)"
    using reachable_bullets_inv [of g]
    by (simp add: bullets_inv_def player_ok_def alien_ok_def bullet_ok_def)
  then show ?thesis
    by (simp add: bullet_move_fired reset_bullets_def)
qed

theorem bullet_fired_iff_inside_witness:
  "reachable (the (frame shoot_input init_game))
   \<and> is_fired (bullet (player (the (frame shoot_input init_game))))
   \<and> y_pos (bullet (player (the (frame shoot_input init_game)))) = 685
   \<and> length (alien_list (the (frame shoot_input init_game))) = 2
   \<and> list_all
        (\<lambda>a. is_fired (bullet a) \<longleftrightarrow> 0 < y_pos (bullet a) \<and> y_pos (bullet a) < of_int SCREEN_H)
        (alien_list (the (frame shoot_input init_game)))
   \<and> (is_fired (bullet (player (the (frame shoot_input init_game)))) \<longleftrightarrow>
         0 < y_pos (bullet (player (the (frame shoot_input init_game))))
         \<and> y_pos (bullet (player (the (frame shoot_input init_game)))) < of_int SCREEN_H)"
proof -
  have r: "reachable (the (frame shoot_input init_game))"
    by (rule reachable.step [OF reachable.start _ frame_shoot_init]) (simp add: init_game_def)
  have e: "is_fired (bullet (player (the (frame shoot_input init_game))))"
    "y_pos (bullet (player (the (frame shoot_input init_game)))) = 685"
    "length (alien_list (the (frame shoot_input init_game))) = 2"
    by code_simp+
  show ?thesis
    using bullet_fired_iff_inside [of _ _ _ _ "the (frame shoot_input init_game)"] r e
    unfolding list_all_iff by blast
qed

section \<open>Reading the score file\<close>

lemma read_lines_step:
  "read_lines sl (l # ls) =
     (if bad_score l then (False, sl)
      else if well_formed l then read_lines (sl @ [(strip l, the (score_of l))]) ls
      else read_lines sl ls)"
  by (auto simp: bad_score_def well_formed_def score_of_def parts_of_def Let_def
      split: option.splits)


lemma entries_Cons:
  "entries (l # ls) = (if well_formed l then (strip l, the (score_of l)) # entries ls else entries ls)"
  by (simp add: entries_def)

lemma read_lines_ok:
  "\<forall>l \<in> set ls. \<not> bad_score l \<Longrightarrow> read_lines sl ls = (True, sl @ entries ls)"
proof (induction ls arbitrary: sl)
  case Nil
  then show ?case by (simp add: entries_def)
next
  case (Cons l ls)
  then show ?case
    by (simp only: read_lines_step entries_Cons) simp
qed

lemma read_lines_bad:
  assumes "\<forall>x \<in> set pre. \<not> bad_score x" and "bad_score l"
  shows "read_lines sl (pre @ l # post) = (False, sl @ entries pre)"
  using assms(1)
proof (induction pre arbitrary: sl)
  case Nil
  then show ?case using assms(2) by (simp only: append_Nil read_lines_step) (simp add: entries_def)
next
  case (Cons x pre)
  then show ?case
    by (simp only: append_Cons read_lines_step entries_Cons) simp
qed

lemma bad_line: "bad_score (''Bob - Score: x'' @ [LF])"
  by code_simp

lemma ada_entry: "entries [ada_line] = [(''Ada - Score: 42'', 42)]"
  by code_simp


lemma first_bad_line:
  assumes "\<exists>l \<in> set ls. bad_score l"
  obtains pre l post where "ls = pre @ l # post" "\<forall>x \<in> set pre. \<not> bad_score x" "bad_score l"
  using split_list_first_prop [OF assms] by blast

text \<open>
  C1, as stated, fails: a line with two parts whose second part is not an integer is not
  skipped. In the file below the first line is such a line and the second is
  well-formed; the read returns False and nothing is appended.
\<close>

theorem read_scores_malformed_counterexample:
  "bad_score (''Bob - Score: x'' @ [LF]) \<and> well_formed ada_line
   \<and> read_scores [] ''s.txt'' (one_file ''s.txt'' (''Bob - Score: x'' @ [LF] @ ada_line))
       = (False, [])"
  by code_simp

text \<open>
  C1, amended. Lines that do not split on ": " into exactly two parts are skipped one by
  one and are not fatal: if no two-part line of the file has a non-integer second part,
  every well-formed line is parsed and appended, in order, and \<^verbatim>\<open>read_scores\<close> returns
  True. A two-part line whose second part is not an integer is not skipped: with such a
  line in the file \<^verbatim>\<open>read_scores\<close> returns False.
\<close>

theorem read_scores_skips_short_lines:
  assumes "fs path = File content"
  shows "((\<forall>l \<in> set (readlines content). \<not> bad_score l) \<longrightarrow>
            read_scores sl path fs = (True, sl @ entries (readlines content)))
     \<and> ((\<exists>l \<in> set (readlines content). bad_score l) \<longrightarrow>
            fst (read_scores sl path fs) = False)"
proof (intro conjI impI)
  assume "\<forall>l \<in> set (readlines content). \<not> bad_score l"
  then show "read_scores sl path fs = (True, sl @ entries (readlines content))"
    using assms by (simp add: read_scores_def read_lines_ok)
next
  assume "\<exists>l \<in> set (readlines content). bad_score l"
  then obtain pre l post where "readlines content = pre @ l # post"
    "\<forall>x \<in> set pre. \<not> bad_score x" "bad_score l"
    by (rule first_bad_line)
  then show "fst (read_scores sl path fs) = False"
    using assms by (simp add: read_scores_def read_lines_bad)
qed

theorem read_scores_skips_short_lines_witness:
  "one_file ''s.txt'' (''junk'' @ [LF] @ ada_line @ ''a: b: c'' @ [LF]) ''s.txt''
     = File (''junk'' @ [LF] @ ada_line @ ''a: b: c'' @ [LF])
   \<and> list_all (\<lambda>l. \<not> bad_score l) (readlines (''junk'' @ [LF] @ ada_line @ ''a: b: c'' @ [LF]))
   \<and> read_scores [] ''s.txt'' (one_file ''s.txt'' (''junk'' @ [LF] @ ada_line @ ''a: b: c'' @ [LF]))
       = (True, [(''Ada - Score: 42'', 42)])
   \<and> one_file ''s.txt'' (''Bob - Score: x'' @ [LF] @ ada_line) ''s.txt''
     = File (''Bob - Score: x'' @ [LF] @ ada_line)
   \<and> (\<exists>l \<in> set (readlines (''Bob - Score: x'' @ [LF] @ ada_line)). bad_score l)
   \<and> fst (read_scores [] ''s.txt'' (one_file ''s.txt'' (''Bob - Score: x'' @ [LF] @ ada_line)))
       = False"
proof -
  let ?good = "''junk'' @ [LF] @ ada_line @ ''a: b: c'' @ [LF]"
  let ?bad = "''Bob - Score: x'' @ [LF] @ ada_line"
  have f: "one_file ''s.txt'' ?good ''s.txt'' = File ?good"
    "one_file ''s.txt'' ?bad ''s.txt'' = File ?bad"
    by (simp_all add: one_file_def)
  have g: "\<forall>l \<in> set (readlines ?good). \<not> bad_score l" by code_simp
  have e: "entries (readlines ?good) = [(''Ada - Score: 42'', 42)]" by code_simp
  have b: "\<exists>l \<in> set (readlines ?bad). bad_score l" by code_simp
  show ?thesis
    using read_scores_skips_short_lines [where fs = "one_file ''s.txt'' ?good"
        and path = "''s.txt''" and content = "?good" and sl = "[]"]
      read_scores_skips_short_lines [where fs = "one_file ''s.txt'' ?bad"
        and path = "''s.txt''" and content = "?bad" and sl = "[]"] f g e b
    by (simp add: list_all_iff)
qed

text \<open>
  C10. \<^verbatim>\<open>read_scores\<close> is not atomic: when the first failing line (two parts, the
  second not an integer) comes after the lines \<open>pre\<close>, the result is False and the list
  holds, after its old content, the entries of the well-formed lines of \<open>pre\<close>; it is
  not rolled back.
\<close>

theorem read_scores_not_atomic:
  assumes "fs path = File content" and "readlines content = pre @ l # post"
    and "\<forall>x \<in> set pre. \<not> bad_score x" and "bad_score l"
  shows "read_scores sl path fs = (False, sl @ entries pre)"
  using assms by (simp add: read_scores_def read_lines_bad)

theorem read_scores_not_atomic_witness:
  "one_file ''s.txt'' (ada_line @ ''Bob - Score: x'' @ [LF] @ ''Cy - Score: 7'' @ [LF]) ''s.txt''
     = File (ada_line @ ''Bob - Score: x'' @ [LF] @ ''Cy - Score: 7'' @ [LF])
   \<and> readlines (ada_line @ ''Bob - Score: x'' @ [LF] @ ''Cy - Score: 7'' @ [LF])
     = [ada_line] @ (''Bob - Score: x'' @ [LF]) # [''Cy - Score: 7'' @ [LF]]
   \<and> list_all (\<lambda>x. \<not> bad_score x) [ada_line]
   \<and> bad_score (''Bob - Score: x'' @ [LF])
   \<and> read_scores [] ''s.txt''
         (one_file ''s.txt'' (ada_line @ ''Bob - Score: x'' @ [LF] @ ''Cy - Score: 7'' @ [LF]))
       = (False, [(''Ada - Score: 42'', 42)])"
proof -
  let ?text = "ada_line @ ''Bob - Score: x'' @ [LF] @ ''Cy - Score: 7'' @ [LF]"
  have f: "one_file ''s.txt'' ?text ''s.txt'' = File ?text"
    by (simp add: one_file_def)
  have r: "readlines ?text = [ada_line] @ (''Bob - Score: x'' @ [LF]) # [''Cy - Score: 7'' @ [LF]]"
    by code_simp
  have g: "\<forall>x \<in> set [ada_line]. \<not> bad_score x" by code_simp
  show ?thesis
    using read_scores_not_atomic [where fs = "one_file ''s.txt'' ?text" and path = "''s.txt''"
        and content = "?text" and pre = "[ada_line]" and l = "''Bob - Score: x'' @ [LF]"
        and post = "[''Cy - Score: 7'' @ [LF]]" and sl = "[]"]
      f r g bad_line ada_entry
    by simp
qed

section \<open>Writing a score and reading it back\<close>











end
